theory Spec2Isabelle
  imports Main "HOL-Library.AList"
begin

section \<open>Inventory reservation subsystem of the e-commerce platform\<close>

text \<open>
  The development embeds \<^verbatim>\<open>core/entities/inventory.py\<close>,
  \<^verbatim>\<open>core/repositories/in_memory_inventory_repository.py\<close> and
  \<^verbatim>\<open>core/services/inventory_service.py\<close>.

  Conventions of the embedding.
  \<^item> Python's unbounded \<^verbatim>\<open>int\<close> is \<^typ>\<open>int\<close>; \<^verbatim>\<open>str\<close> is \<^typ>\<open>string\<close>.
  \<^item> A \<^verbatim>\<open>datetime\<close> is an \<^typ>\<open>int\<close> counting microseconds. Every
    \<^verbatim>\<open>datetime.now()\<close> read by one operation is the parameter \<open>now\<close> of that
    operation: the clock is taken not to advance while a single call runs.
  \<^item> A method that mutates \<^verbatim>\<open>self\<close> takes the object and returns the pair of its
    outcome (\<open>Inl\<close> the exception raised, \<open>Inr\<close> the value returned) and the object
    afterwards, so that what an exception leaves behind is part of the model.
  \<^item> \<^verbatim>\<open>print\<close> calls are dropped, and the per-object and per-service locks guard
    single-threaded runs here, so they do nothing.
\<close>

subsection \<open>Entities\<close>

type_synonym datetime = int

datatype message = Not_found | Not_active | Reservation_failed | Confirmation_failed

datatype error =
    ValueError
  | InsufficientInventoryException
  | ReservationException message

datatype ReservationStatus = ACTIVE | CONFIRMED | CANCELLED | EXPIRED

record InventoryItem =
  product_id :: string
  warehouse_id :: string
  available_quantity :: int
  reserved_quantity :: int
  total_received :: int
  total_sold :: int
  last_updated :: datetime

text \<open>\<^verbatim>\<open>InventoryItem.reserve\<close>.\<close>

definition reserve :: "datetime \<Rightarrow> int \<Rightarrow> InventoryItem \<Rightarrow> (error + bool) \<times> InventoryItem" where
  "reserve now quantity self =
     (if quantity \<le> 0 then (Inl ValueError, self)
      else if available_quantity self \<ge> quantity then
        (Inr True, self\<lparr>available_quantity := available_quantity self - quantity,
                        reserved_quantity := reserved_quantity self + quantity,
                        last_updated := now\<rparr>)
      else (Inr False, self))"

text \<open>\<^verbatim>\<open>InventoryItem.release_reservation\<close>.\<close>

definition release_reservation :: "datetime \<Rightarrow> int \<Rightarrow> InventoryItem \<Rightarrow> (error + int) \<times> InventoryItem" where
  "release_reservation now quantity self =
     (if quantity \<le> 0 then (Inl ValueError, self)
      else let actual_release = min quantity (reserved_quantity self) in
        (Inr actual_release,
         self\<lparr>reserved_quantity := reserved_quantity self - actual_release,
               available_quantity := available_quantity self + actual_release,
               last_updated := now\<rparr>))"

text \<open>\<^verbatim>\<open>InventoryItem.confirm_reservation\<close>.\<close>

definition item_confirm_reservation :: "datetime \<Rightarrow> int \<Rightarrow> InventoryItem \<Rightarrow> (error + int) \<times> InventoryItem" where
  "item_confirm_reservation now quantity self =
     (if quantity \<le> 0 then (Inl ValueError, self)
      else let actual_confirm = min quantity (reserved_quantity self) in
        (Inr actual_confirm,
         self\<lparr>reserved_quantity := reserved_quantity self - actual_confirm,
               total_sold := total_sold self + actual_confirm,
               last_updated := now\<rparr>))"

text \<open>\<^verbatim>\<open>InventoryItem.add_stock\<close>.\<close>

definition add_stock :: "datetime \<Rightarrow> int \<Rightarrow> InventoryItem \<Rightarrow> (error + unit) \<times> InventoryItem" where
  "add_stock now quantity self =
     (if quantity \<le> 0 then (Inl ValueError, self)
      else (Inr (),
            self\<lparr>available_quantity := available_quantity self + quantity,
                  total_received := total_received self + quantity,
                  last_updated := now\<rparr>))"

text \<open>\<^verbatim>\<open>InventoryItem.remove_stock\<close> (the \<^verbatim>\<open>reason\<close> argument is unused by the source).\<close>

definition remove_stock :: "datetime \<Rightarrow> int \<Rightarrow> InventoryItem \<Rightarrow> (error + int) \<times> InventoryItem" where
  "remove_stock now quantity self =
     (if quantity \<le> 0 then (Inl ValueError, self)
      else let actual_removal = min quantity (available_quantity self) in
        (Inr actual_removal,
         self\<lparr>available_quantity := available_quantity self - actual_removal,
               last_updated := now\<rparr>))"

text \<open>
  A sequence of calls on one ledger entry. Each call carries the clock reading it sees.
  An exception ends the sequence, as it would in a caller that does not catch it; the
  result lists the entry after every completed call.
\<close>

datatype ledger_op =
    Reserve int
  | Release int
  | Confirm int
  | Add_stock int
  | Remove_stock int

fun op_quantity :: "ledger_op \<Rightarrow> int" where
  "op_quantity (Reserve q) = q"
| "op_quantity (Release q) = q"
| "op_quantity (Confirm q) = q"
| "op_quantity (Add_stock q) = q"
| "op_quantity (Remove_stock q) = q"

fun apply_op :: "datetime \<Rightarrow> ledger_op \<Rightarrow> InventoryItem \<Rightarrow> error + InventoryItem" where
  "apply_op now (Reserve q) self =
     (case reserve now q self of (Inl e, _) \<Rightarrow> Inl e | (Inr _, self') \<Rightarrow> Inr self')"
| "apply_op now (Release q) self =
     (case release_reservation now q self of (Inl e, _) \<Rightarrow> Inl e | (Inr _, self') \<Rightarrow> Inr self')"
| "apply_op now (Confirm q) self =
     (case item_confirm_reservation now q self of (Inl e, _) \<Rightarrow> Inl e | (Inr _, self') \<Rightarrow> Inr self')"
| "apply_op now (Add_stock q) self =
     (case add_stock now q self of (Inl e, _) \<Rightarrow> Inl e | (Inr _, self') \<Rightarrow> Inr self')"
| "apply_op now (Remove_stock q) self =
     (case remove_stock now q self of (Inl e, _) \<Rightarrow> Inl e | (Inr _, self') \<Rightarrow> Inr self')"

fun run_ops :: "InventoryItem \<Rightarrow> (datetime \<times> ledger_op) list \<Rightarrow> error + InventoryItem list" where
  "run_ops self [] = Inr []"
| "run_ops self ((now, x) # ops) =
     (case apply_op now x self of
        Inl e \<Rightarrow> Inl e
      | Inr self' \<Rightarrow>
          (case run_ops self' ops of Inl e \<Rightarrow> Inl e | Inr trace \<Rightarrow> Inr (self' # trace)))"

definition quantities_valid :: "InventoryItem \<Rightarrow> bool" where
  "quantities_valid self \<longleftrightarrow> 0 \<le> available_quantity self \<and> 0 \<le> reserved_quantity self"

record InventoryReservation =
  reservation_id :: string
  customer_id :: string
  items :: "(string \<times> int) list"
  status :: ReservationStatus
  created_at :: datetime
  expires_at :: datetime
  confirmed_at :: "datetime option"
  cancelled_at :: "datetime option"

text \<open>\<^verbatim>\<open>timedelta(minutes=m)\<close>, in microseconds.\<close>

definition timedelta_minutes :: "int \<Rightarrow> int" where
  "timedelta_minutes m = m * 60000000"

text \<open>
  \<^verbatim>\<open>InventoryReservation.create\<close>. The identifier that \<^verbatim>\<open>uuid.uuid4()\<close> draws is the
  parameter \<open>rid\<close>. A Python \<^verbatim>\<open>dict\<close> is an association list in insertion order whose
  keys are pairwise distinct.
\<close>

definition create :: "datetime \<Rightarrow> string \<Rightarrow> string \<Rightarrow> (string \<times> int) list \<Rightarrow> int \<Rightarrow> InventoryReservation" where
  "create now rid customer held expiry_minutes =
     \<lparr>reservation_id = rid, customer_id = customer, items = held, status = ACTIVE,
      created_at = now, expires_at = now + timedelta_minutes expiry_minutes,
      confirmed_at = None, cancelled_at = None\<rparr>"

definition is_expired :: "datetime \<Rightarrow> InventoryReservation \<Rightarrow> bool" where
  "is_expired now self \<longleftrightarrow> now > expires_at self \<and> status self = ACTIVE"

definition is_active :: "datetime \<Rightarrow> InventoryReservation \<Rightarrow> bool" where
  "is_active now self \<longleftrightarrow> status self = ACTIVE \<and> \<not> is_expired now self"

text \<open>\<^verbatim>\<open>InventoryReservation.confirm\<close> and \<^verbatim>\<open>InventoryReservation.cancel\<close>.\<close>

definition confirm :: "datetime \<Rightarrow> InventoryReservation \<Rightarrow> (error + unit) \<times> InventoryReservation" where
  "confirm now self =
     (if \<not> is_active now self then (Inl ValueError, self)
      else (Inr (), self\<lparr>status := CONFIRMED, confirmed_at := Some now\<rparr>))"

definition cancel :: "datetime \<Rightarrow> InventoryReservation \<Rightarrow> (error + unit) \<times> InventoryReservation" where
  "cancel now self =
     (if status self \<in> set [CONFIRMED, CANCELLED] then (Inl ValueError, self)
      else (Inr (), self\<lparr>status := CANCELLED, cancelled_at := Some now\<rparr>))"

text \<open>
  A cart line (\<^verbatim>\<open>CartItem\<close>). Only the two fields the inventory service reads are kept;
  the field \<^verbatim>\<open>product_id\<close> is named \<open>cart_product_id\<close> here, the name \<open>product_id\<close>
  being the ledger entry's.
\<close>

datatype CartItem = CartItem (cart_product_id: string) (quantity: int)

subsection \<open>The in-memory repository\<close>

text \<open>
  \<^verbatim>\<open>InMemoryInventoryRepository\<close>: two dictionaries, in insertion order. The registry of
  warehouses is read by none of the operations below and is left out.

  Objects are values here. The source stores references and mutates the objects in
  place; the two agree as long as every ledger entry sits under the key made of its own
  identifiers and every reservation under its own identifier, which is how
  \<^verbatim>\<open>save_inventory_item\<close> and \<^verbatim>\<open>save_reservation\<close> store them (predicate
  \<open>repository_wf\<close> below).
\<close>

record repository =
  inventory_items :: "(string \<times> InventoryItem) list"
  reservations :: "(string \<times> InventoryReservation) list"

text \<open>The key \<^verbatim>\<open>f"{product_id}_{warehouse_id}"\<close>.\<close>

definition item_key :: "string \<Rightarrow> string \<Rightarrow> string" where
  "item_key p w = p @ ''_'' @ w"

definition save_inventory_item :: "InventoryItem \<Rightarrow> repository \<Rightarrow> repository" where
  "save_inventory_item item repo =
     repo\<lparr>inventory_items :=
       AList.update (item_key (product_id item) (warehouse_id item)) item (inventory_items repo)\<rparr>"

definition find_inventory_item :: "repository \<Rightarrow> string \<Rightarrow> string \<Rightarrow> InventoryItem option" where
  "find_inventory_item repo p w = map_of (inventory_items repo) (item_key p w)"

definition find_inventory_by_product :: "repository \<Rightarrow> string \<Rightarrow> InventoryItem list" where
  "find_inventory_by_product repo p =
     filter (\<lambda>item. product_id item = p) (map snd (inventory_items repo))"

definition save_reservation :: "InventoryReservation \<Rightarrow> repository \<Rightarrow> repository" where
  "save_reservation reservation repo =
     repo\<lparr>reservations :=
       AList.update (reservation_id reservation) reservation (reservations repo)\<rparr>"

definition find_reservation :: "repository \<Rightarrow> string \<Rightarrow> InventoryReservation option" where
  "find_reservation repo rid = map_of (reservations repo) rid"


subsection \<open>The inventory service\<close>

text \<open>
  The service's state is its repository. Its configuration is constant
  (\<^verbatim>\<open>default_reservation_expiry_minutes = 15\<close>), and \<^verbatim>\<open>notification_service\<close> is
  \<^verbatim>\<open>None\<close>, the constructor's default, so that \<^verbatim>\<open>_check_low_stock_alerts\<close> does nothing.
\<close>

definition default_reservation_expiry_minutes :: int where
  "default_reservation_expiry_minutes = 15"

type_synonym allocation_plan = "((string \<times> string) \<times> int) list"

text \<open>
  The inner loop of \<^verbatim>\<open>_plan_inventory_allocation\<close> over the sorted entries of one
  product: it returns \<^verbatim>\<open>remaining_needed\<close> and the plan.
\<close>

fun allocate :: "string \<Rightarrow> InventoryItem list \<Rightarrow> int \<Rightarrow> allocation_plan \<Rightarrow> int \<times> allocation_plan" where
  "allocate p [] remaining_needed plan = (remaining_needed, plan)"
| "allocate p (inventory_item # rest) remaining_needed plan =
     (if remaining_needed \<le> 0 then (remaining_needed, plan)
      else let can_allocate = min remaining_needed (available_quantity inventory_item) in
        if can_allocate > 0 then
          allocate p rest (remaining_needed - can_allocate)
            (AList.update (p, warehouse_id inventory_item) can_allocate plan)
        else allocate p rest remaining_needed plan)"

text \<open>
  \<^verbatim>\<open>inventory_items.sort(key=lambda x: x.available_quantity, reverse=True)\<close>: Python's
  sort is stable, also with \<^verbatim>\<open>reverse=True\<close>, and so is \<^const>\<open>sort_key\<close>.
\<close>

definition sort_by_available_desc :: "InventoryItem list \<Rightarrow> InventoryItem list" where
  "sort_by_available_desc inventory = sort_key (\<lambda>x. - available_quantity x) inventory"

fun plan_lines :: "repository \<Rightarrow> CartItem list \<Rightarrow> allocation_plan \<Rightarrow> allocation_plan option" where
  "plan_lines repo [] plan = Some plan"
| "plan_lines repo (cart_item # rest) plan =
     (case allocate (cart_product_id cart_item)
             (sort_by_available_desc (find_inventory_by_product repo (cart_product_id cart_item)))
             (quantity cart_item) plan of
        (remaining_needed, plan') \<Rightarrow>
          if remaining_needed > 0 then None else plan_lines repo rest plan')"

definition plan_inventory_allocation :: "repository \<Rightarrow> CartItem list \<Rightarrow> allocation_plan option" where
  "plan_inventory_allocation repo cart_items = plan_lines repo cart_items []"

text \<open>
  The loop in the \<^verbatim>\<open>try\<close> block of \<^verbatim>\<open>reserve_items\<close>. It carries
  \<^verbatim>\<open>reserved_items\<close> and \<^verbatim>\<open>successfully_reserved\<close>; the latter lists the entries by
  the key they are stored under, with the quantity held. An exception leaves the loop
  with what was accumulated.
\<close>

fun apply_plan :: "datetime \<Rightarrow> allocation_plan \<Rightarrow> repository \<Rightarrow> (string \<times> int) list \<Rightarrow> (string \<times> int) list
    \<Rightarrow> (error + (string \<times> int) list) \<times> repository \<times> (string \<times> int) list" where
  "apply_plan now [] repo reserved_items successfully_reserved =
     (Inr reserved_items, repo, successfully_reserved)"
| "apply_plan now (((p, w), q) # rest) repo reserved_items successfully_reserved =
     (case find_inventory_item repo p w of
        None \<Rightarrow> (Inl InsufficientInventoryException, repo, successfully_reserved)
      | Some inventory_item \<Rightarrow>
          (case reserve now q inventory_item of
             (Inl e, _) \<Rightarrow> (Inl e, repo, successfully_reserved)
           | (Inr False, _) \<Rightarrow> (Inl InsufficientInventoryException, repo, successfully_reserved)
           | (Inr True, inventory_item') \<Rightarrow>
               apply_plan now rest (save_inventory_item inventory_item' repo)
                 (AList.update (item_key p w) q reserved_items)
                 (successfully_reserved @
                    [(item_key (product_id inventory_item') (warehouse_id inventory_item'), q)])))"

text \<open>\<^verbatim>\<open>_rollback_reservations\<close>: a failing release is caught and skipped.\<close>

fun rollback_reservations :: "datetime \<Rightarrow> (string \<times> int) list \<Rightarrow> repository \<Rightarrow> repository" where
  "rollback_reservations now [] repo = repo"
| "rollback_reservations now ((k, q) # rest) repo =
     (case map_of (inventory_items repo) k of
        None \<Rightarrow> rollback_reservations now rest repo
      | Some inventory_item \<Rightarrow>
          (case release_reservation now q inventory_item of
             (Inl e, _) \<Rightarrow> rollback_reservations now rest repo
           | (Inr _, inventory_item') \<Rightarrow>
               rollback_reservations now rest (save_inventory_item inventory_item' repo)))"

text \<open>
  Steps 2 and 3 of \<^verbatim>\<open>reserve_items\<close>, the \<^verbatim>\<open>try\<close> block with its handler, for a
  given plan.
\<close>

definition reserve_planned :: "datetime \<Rightarrow> string \<Rightarrow> allocation_plan \<Rightarrow> string \<Rightarrow> repository
    \<Rightarrow> (error + string) \<times> repository" where
  "reserve_planned now rid plan customer repo =
     (case apply_plan now plan repo [] [] of
        (Inr reserved_items, repo', _) \<Rightarrow>
          (Inr rid,
           save_reservation
             (create now rid customer reserved_items default_reservation_expiry_minutes) repo')
      | (Inl e, repo', successfully_reserved) \<Rightarrow>
          (Inl (ReservationException Reservation_failed),
           rollback_reservations now successfully_reserved repo'))"

text \<open>\<^verbatim>\<open>InventoryService.reserve_items\<close>. An empty \<^verbatim>\<open>dict\<close> is false in Python.\<close>

definition reserve_items :: "datetime \<Rightarrow> string \<Rightarrow> CartItem list \<Rightarrow> string \<Rightarrow> repository
    \<Rightarrow> (error + string) \<times> repository" where
  "reserve_items now rid cart_items customer repo =
     (case plan_inventory_allocation repo cart_items of
        None \<Rightarrow> (Inl InsufficientInventoryException, repo)
      | Some plan \<Rightarrow>
          if plan = [] then (Inl InsufficientInventoryException, repo)
          else reserve_planned now rid plan customer repo)"

text \<open>
  \<^verbatim>\<open>product_id, warehouse_id = item_key.split('_', 1)\<close>: the split at the first
  underscore; \<open>None\<close> is the \<^verbatim>\<open>ValueError\<close> of unpacking a one-element list.
\<close>

fun split_first :: "string \<Rightarrow> (string \<times> string) option" where
  "split_first [] = None"
| "split_first (c # cs) =
     (if c = CHR ''_'' then Some ([], cs)
      else map_option (\<lambda>(a, b). (c # a, b)) (split_first cs))"

text \<open>The loop of \<^verbatim>\<open>confirm_reservation\<close> over the held items.\<close>

fun confirm_items :: "datetime \<Rightarrow> (string \<times> int) list \<Rightarrow> repository \<Rightarrow> (error + unit) \<times> repository" where
  "confirm_items now [] repo = (Inr (), repo)"
| "confirm_items now ((k, q) # rest) repo =
     (case split_first k of
        None \<Rightarrow> (Inl ValueError, repo)
      | Some (p, w) \<Rightarrow>
          (case find_inventory_item repo p w of
             None \<Rightarrow> confirm_items now rest repo
           | Some inventory_item \<Rightarrow>
               (case item_confirm_reservation now q inventory_item of
                  (Inl e, _) \<Rightarrow> (Inl e, repo)
                | (Inr confirmed_qty, inventory_item') \<Rightarrow>
                    confirm_items now rest (save_inventory_item inventory_item' repo))))"

text \<open>\<^verbatim>\<open>InventoryService.confirm_reservation\<close>.\<close>

definition confirm_reservation :: "datetime \<Rightarrow> string \<Rightarrow> repository \<Rightarrow> (error + bool) \<times> repository" where
  "confirm_reservation now rid repo =
     (case find_reservation repo rid of
        None \<Rightarrow> (Inl (ReservationException Not_found), repo)
      | Some reservation \<Rightarrow>
          if \<not> is_active now reservation then (Inl (ReservationException Not_active), repo)
          else
            (case confirm_items now (items reservation) repo of
               (Inl e, repo') \<Rightarrow> (Inl (ReservationException Confirmation_failed), repo')
             | (Inr _, repo') \<Rightarrow>
                 (case confirm now reservation of
                    (Inl e, _) \<Rightarrow> (Inl (ReservationException Confirmation_failed), repo')
                  | (Inr _, reservation') \<Rightarrow> (Inr True, save_reservation reservation' repo'))))"

text \<open>The loop of \<^verbatim>\<open>cancel_reservation\<close> over the held items.\<close>

fun release_items :: "datetime \<Rightarrow> (string \<times> int) list \<Rightarrow> repository \<Rightarrow> (error + unit) \<times> repository" where
  "release_items now [] repo = (Inr (), repo)"
| "release_items now ((k, q) # rest) repo =
     (case split_first k of
        None \<Rightarrow> (Inl ValueError, repo)
      | Some (p, w) \<Rightarrow>
          (case find_inventory_item repo p w of
             None \<Rightarrow> release_items now rest repo
           | Some inventory_item \<Rightarrow>
               (case release_reservation now q inventory_item of
                  (Inl e, _) \<Rightarrow> (Inl e, repo)
                | (Inr released_qty, inventory_item') \<Rightarrow>
                    release_items now rest (save_inventory_item inventory_item' repo))))"

text \<open>\<^verbatim>\<open>InventoryService.cancel_reservation\<close>: every exception is caught and answered \<^verbatim>\<open>False\<close>.\<close>

definition cancel_reservation :: "datetime \<Rightarrow> string \<Rightarrow> repository \<Rightarrow> bool \<times> repository" where
  "cancel_reservation now rid repo =
     (case find_reservation repo rid of
        None \<Rightarrow> (False, repo)
      | Some reservation \<Rightarrow>
          if status reservation \<in> set [CONFIRMED, CANCELLED] then (True, repo)
          else
            (case release_items now (items reservation) repo of
               (Inl e, repo') \<Rightarrow> (False, repo')
             | (Inr _, repo') \<Rightarrow>
                 (case cancel now reservation of
                    (Inl e, _) \<Rightarrow> (False, repo')
                  | (Inr _, reservation') \<Rightarrow> (True, save_reservation reservation' repo'))))"



subsection \<open>Well-formed repositories\<close>

text \<open>
  What every repository built through the service satisfies: dictionary keys are
  distinct, every ledger entry is stored under the key of its own identifiers with
  non-negative quantities (the constructor rejects a negative available quantity and
  starts the reserved quantity at zero), and every reservation is stored under its own
  identifier.
\<close>

definition item_wf :: "string \<times> InventoryItem \<Rightarrow> bool" where
  "item_wf e \<longleftrightarrow> fst e = item_key (product_id (snd e)) (warehouse_id (snd e))
      \<and> quantities_valid (snd e)"

definition inventory_wf :: "repository \<Rightarrow> bool" where
  "inventory_wf repo \<longleftrightarrow>
     distinct (map fst (inventory_items repo)) \<and> list_all item_wf (inventory_items repo)"

definition reservation_wf :: "string \<times> InventoryReservation \<Rightarrow> bool" where
  "reservation_wf e \<longleftrightarrow> fst e = reservation_id (snd e) \<and> distinct (map fst (items (snd e)))"

definition repository_wf :: "repository \<Rightarrow> bool" where
  "repository_wf repo \<longleftrightarrow>
     inventory_wf repo \<and> distinct (map fst (reservations repo))
       \<and> list_all reservation_wf (reservations repo)"

text \<open>
  The holds of a reservation that \<^verbatim>\<open>reserve_items\<close> wrote: positive quantities under keys
  with an underscore.
\<close>

definition holds_ok :: "InventoryReservation \<Rightarrow> bool" where
  "holds_ok reservation \<longleftrightarrow>
     list_all (\<lambda>h. 0 < snd h \<and> CHR ''_'' \<in> set (fst h)) (items reservation)"

subsection \<open>Notions used to state the properties\<close>

text \<open>The pairs of available and reserved quantity of all ledger entries, by key.\<close>

definition ledger :: "repository \<Rightarrow> (string \<times> int \<times> int) list" where
  "ledger repo =
     map (\<lambda>e. (fst e, available_quantity (snd e), reserved_quantity (snd e)))
       (inventory_items repo)"

text \<open>The sum of the available quantities over all ledger entries of a product.\<close>

definition total_available :: "repository \<Rightarrow> string \<Rightarrow> int" where
  "total_available repo p = sum_list (map available_quantity (find_inventory_by_product repo p))"

text \<open>What a plan allocates to a product, summed over the warehouses.\<close>

definition allocated :: "allocation_plan \<Rightarrow> string \<Rightarrow> int" where
  "allocated plan p = sum_list (map snd (filter (\<lambda>e. fst (fst e) = p) plan))"

text \<open>The hold that \<^verbatim>\<open>reserve_items\<close> records for an entry of the plan.\<close>

definition encode_hold :: "(string \<times> string) \<times> int \<Rightarrow> string \<times> int" where
  "encode_hold e = (item_key (fst (fst e)) (snd (fst e)), snd e)"

text \<open>The quantity a list of holds keeps on the entry stored under a key.\<close>

definition held_total :: "(string \<times> int) list \<Rightarrow> string \<Rightarrow> int" where
  "held_total holds k = sum_list (map snd (filter (\<lambda>h. fst h = k) holds))"


text \<open>
  Moving \<open>n\<close> units from available to reserved, on a pair of available and reserved
  quantity.
\<close>

definition shift_by :: "int \<Rightarrow> int \<times> int \<Rightarrow> int \<times> int" where
  "shift_by n v = (fst v - n, snd v + n)"

text \<open>
  The allocation of one line as section 4.2 of the specification words it: walk the
  candidate entries, most stocked first, and take from each what is still needed and
  available, until the requested quantity is met or the entries are exhausted.
\<close>

fun greedy_allocation :: "string \<Rightarrow> InventoryItem list \<Rightarrow> int \<Rightarrow> allocation_plan" where
  "greedy_allocation p [] needed = []"
| "greedy_allocation p (entry # entries) needed =
     (if needed \<le> 0 then []
      else if min needed (available_quantity entry) > 0 then
        ((p, warehouse_id entry), min needed (available_quantity entry))
          # greedy_allocation p entries (needed - min needed (available_quantity entry))
      else greedy_allocation p entries needed)"

definition line_allocation :: "repository \<Rightarrow> CartItem \<Rightarrow> allocation_plan" where
  "line_allocation repo cart_item =
     greedy_allocation (cart_product_id cart_item)
       (sort_by_available_desc (find_inventory_by_product repo (cart_product_id cart_item)))
       (quantity cart_item)"

subsection \<open>Sample data\<close>

text \<open>A ledger entry of product \<open>P\<close> in warehouse \<open>W1\<close> with five units available.\<close>

definition sample_item :: InventoryItem where
  "sample_item =
     \<lparr>product_id = ''P'', warehouse_id = ''W1'', available_quantity = 5,
      reserved_quantity = 0, total_received = 5, total_sold = 0, last_updated = 0\<rparr>"

text \<open>A repository holding that entry alone.\<close>

definition sample_repo :: repository where
  "sample_repo = \<lparr>inventory_items = [(''P_W1'', sample_item)], reservations = []\<rparr>"

text \<open>The repository after customer \<open>C\<close> has reserved three units of \<open>P\<close> at time 10.\<close>

definition sample_reserved :: repository where
  "sample_reserved = snd (reserve_items 10 ''R1'' [CartItem ''P'' 3] ''C'' sample_repo)"


section \<open>Properties of a ledger entry\<close>

lemma apply_op_valid:
  assumes "quantities_valid self" and "0 < op_quantity x"
  shows "\<exists>self'. apply_op now x self = Inr self' \<and> quantities_valid self'"
  using assms
  by (cases x)
     (auto simp: quantities_valid_def reserve_def release_reservation_def
        item_confirm_reservation_def add_stock_def remove_stock_def Let_def)

lemma run_ops_valid:
  assumes "quantities_valid self" and "\<forall>(now, x) \<in> set ops. 0 < op_quantity x"
  shows "\<exists>trace. run_ops self ops = Inr trace \<and> length trace = length ops
           \<and> (\<forall>self' \<in> set trace. quantities_valid self')"
  using assms
proof (induction ops arbitrary: self)
  case Nil
  then show ?case by simp
next
  case (Cons a ops)
  obtain now x where a: "a = (now, x)" by (cases a)
  from Cons.prems a have "0 < op_quantity x" by simp
  with Cons.prems(1) obtain self' where
    s: "apply_op now x self = Inr self'" "quantities_valid self'"
    using apply_op_valid by blast
  from Cons.prems have "\<forall>(now, x) \<in> set ops. 0 < op_quantity x" by simp
  from Cons.IH [OF s(2) this] obtain trace where
    "run_ops self' ops = Inr trace" "length trace = length ops"
    "\<forall>self' \<in> set trace. quantities_valid self'" by blast
  with s a show ?case by simp
qed

text \<open>
  Claim C3. \<^verbatim>\<open>reserve(qty)\<close> with \<open>qty \<le> 0\<close> raises \<^verbatim>\<open>ValueError\<close> and leaves the
  entry as it was. With \<open>qty > 0\<close> it returns \<^verbatim>\<open>True\<close> exactly when
  \<open>available \<ge> qty\<close>, and then the entry has \<open>qty\<close> moved from available to reserved and
  its \<^verbatim>\<open>last_updated\<close> set to the clock reading; otherwise it returns \<^verbatim>\<open>False\<close>, no
  exception is raised and the entry is unchanged.
\<close>

theorem reserve_contract:
  "(qty \<le> 0 \<longrightarrow> reserve now qty self = (Inl ValueError, self)) \<and>
   (0 < qty \<longrightarrow>
      (fst (reserve now qty self) = Inr True \<longleftrightarrow> qty \<le> available_quantity self) \<and>
      (fst (reserve now qty self) = Inr False \<longleftrightarrow> available_quantity self < qty)) \<and>
   (0 < qty \<and> qty \<le> available_quantity self \<longrightarrow>
      snd (reserve now qty self) =
        self\<lparr>available_quantity := available_quantity self - qty,
              reserved_quantity := reserved_quantity self + qty,
              last_updated := now\<rparr>) \<and>
   (0 < qty \<and> available_quantity self < qty \<longrightarrow>
      snd (reserve now qty self) = self)"
  by (simp add: reserve_def)

theorem reserve_contract_witness:
  "reserve 7 (- 1) sample_item = (Inl ValueError, sample_item) \<and>
   fst (reserve 7 3 sample_item) = Inr True \<and>
   available_quantity (snd (reserve 7 3 sample_item)) = 2 \<and>
   reserved_quantity (snd (reserve 7 3 sample_item)) = 3 \<and>
   last_updated (snd (reserve 7 3 sample_item)) = 7 \<and>
   fst (reserve 7 6 sample_item) = Inr False \<and>
   snd (reserve 7 6 sample_item) = sample_item"
  using reserve_contract [of "- 1" 7 sample_item] reserve_contract [of 3 7 sample_item]
    reserve_contract [of 6 7 sample_item]
  by (simp add: sample_item_def)

text \<open>
  Claim C4. Starting from an entry with \<open>available \<ge> 0\<close> and \<open>reserved \<ge> 0\<close>, every
  sequence of \<^verbatim>\<open>reserve\<close>, \<^verbatim>\<open>release_reservation\<close>, \<^verbatim>\<open>confirm_reservation\<close>,
  \<^verbatim>\<open>add_stock\<close> and \<^verbatim>\<open>remove_stock\<close> calls with positive quantities runs to its end
  without an exception, and both quantities are non-negative after every call.
\<close>

theorem quantities_never_negative:
  assumes "0 \<le> available_quantity self" and "0 \<le> reserved_quantity self"
    and "\<forall>(now, x) \<in> set ops. 0 < op_quantity x"
  shows "\<exists>trace. run_ops self ops = Inr trace \<and> length trace = length ops \<and>
           (\<forall>self' \<in> set trace. 0 \<le> available_quantity self' \<and> 0 \<le> reserved_quantity self')"
  using run_ops_valid [of self ops] assms by (simp add: quantities_valid_def)

theorem quantities_never_negative_witness:
  "\<exists>trace.
     run_ops sample_item
       [(1, Reserve 3), (2, Release 5), (3, Reserve 4), (4, Confirm 9), (5, Add_stock 2),
        (6, Remove_stock 10)] = Inr trace \<and>
     length trace =
       length [(1 :: datetime, Reserve 3), (2, Release 5), (3, Reserve 4), (4, Confirm 9),
         (5, Add_stock 2), (6, Remove_stock 10)] \<and>
     (\<forall>self' \<in> set trace. 0 \<le> available_quantity self' \<and> 0 \<le> reserved_quantity self')"
  by (rule quantities_never_negative) (simp_all add: sample_item_def)

text \<open>
  Claim C7. On an entry whose reserved quantity is not negative (the data model's
  invariant, kept by every operation, see C4), \<^verbatim>\<open>reserve(qty)\<close> with
  \<open>0 < qty \<le> available\<close> succeeds, and \<^verbatim>\<open>release_reservation(qty)\<close> right after it
  returns \<open>qty\<close> and puts the available and the reserved quantity back to what they were.
  In general \<^verbatim>\<open>release_reservation(qty)\<close> with \<open>qty > 0\<close> returns \<open>min qty reserved\<close>
  and moves that amount from reserved to available; releasing at least what is reserved
  empties the reservation, so that a further release returns 0 and moves nothing.
\<close>

theorem reserve_release_round_trip:
  "(0 < qty \<and> qty \<le> available_quantity self \<and> 0 \<le> reserved_quantity self \<longrightarrow>
      fst (reserve now qty self) = Inr True \<and>
      fst (release_reservation now' qty (snd (reserve now qty self))) = Inr qty \<and>
      available_quantity (snd (release_reservation now' qty (snd (reserve now qty self))))
        = available_quantity self \<and>
      reserved_quantity (snd (release_reservation now' qty (snd (reserve now qty self))))
        = reserved_quantity self) \<and>
   (0 < qty \<longrightarrow>
      fst (release_reservation now qty self) = Inr (min qty (reserved_quantity self)) \<and>
      available_quantity (snd (release_reservation now qty self))
        = available_quantity self + min qty (reserved_quantity self) \<and>
      reserved_quantity (snd (release_reservation now qty self))
        = reserved_quantity self - min qty (reserved_quantity self)) \<and>
   (0 < qty \<and> 0 < qty' \<and> 0 \<le> reserved_quantity self \<and> reserved_quantity self \<le> qty \<longrightarrow>
      fst (release_reservation now' qty' (snd (release_reservation now qty self))) = Inr 0 \<and>
      available_quantity (snd (release_reservation now' qty' (snd (release_reservation now qty self))))
        = available_quantity (snd (release_reservation now qty self)) \<and>
      reserved_quantity (snd (release_reservation now' qty' (snd (release_reservation now qty self))))
        = 0)"
  by (simp add: reserve_def release_reservation_def Let_def)

theorem reserve_release_round_trip_witness:
  "fst (reserve 1 3 sample_item) = Inr True \<and>
   fst (release_reservation 2 3 (snd (reserve 1 3 sample_item))) = Inr 3 \<and>
   available_quantity (snd (release_reservation 2 3 (snd (reserve 1 3 sample_item)))) = 5 \<and>
   reserved_quantity (snd (release_reservation 2 3 (snd (reserve 1 3 sample_item)))) = 0 \<and>
   fst (release_reservation 3 4 (snd (reserve 1 3 sample_item))) = Inr 3 \<and>
   fst (release_reservation 4 4 (snd (release_reservation 3 4 (snd (reserve 1 3 sample_item))))) = Inr 0"
  using reserve_release_round_trip [of 3 sample_item 1 2 3]
    reserve_release_round_trip [of 4 "snd (reserve 1 3 sample_item)" 3 4 4]
  by (simp add: sample_item_def reserve_def)

section \<open>Keys of ledger entries and holds\<close>

lemma split_first_item_key:
  "CHR ''_'' \<notin> set p \<Longrightarrow> split_first (item_key p w) = Some (p, w)"
  by (induction p) (auto simp: item_key_def)

lemma split_first_rejoin:
  "split_first k = Some (p, w) \<Longrightarrow> item_key p w = k"
  by (induction k arbitrary: p) (auto simp: item_key_def split: if_splits)

lemma split_first_underscore:
  "CHR ''_'' \<in> set k \<Longrightarrow> \<exists>p w. split_first k = Some (p, w)"
  by (induction k) auto

lemma item_key_inj:
  assumes "CHR ''_'' \<notin> set p" "CHR ''_'' \<notin> set p'" "item_key p w = item_key p' w'"
  shows "p = p' \<and> w = w'"
proof -
  have "Some (p, w) = split_first (item_key p w)"
    using assms(1) by (simp add: split_first_item_key)
  also have "\<dots> = split_first (item_key p' w')"
    by (simp only: assms(3))
  also have "\<dots> = Some (p', w')"
    using assms(2) by (rule split_first_item_key)
  finally show ?thesis by simp
qed

text \<open>
  Claim C10. A key is the product identifier, an underscore and the warehouse
  identifier. When the product identifier holds no underscore, splitting the key at its
  first underscore gives back the pair it was built from, two pairs with such product
  identifiers and the same key are the same pair, and the lookup that
  \<^verbatim>\<open>confirm_reservation\<close> and \<^verbatim>\<open>cancel_reservation\<close> make with the decoded pair is the
  lookup of the entry that was reserved. With an underscore in the product identifier
  neither the round trip nor the injectivity holds: \<open>(a_b, c)\<close> and \<open>(a, b_c)\<close> share the
  key \<open>a_b_c\<close>, which decodes to the second.
\<close>

theorem item_key_round_trip:
  "(CHR ''_'' \<notin> set p \<longrightarrow> split_first (item_key p w) = Some (p, w)) \<and>
   (CHR ''_'' \<notin> set p \<and> CHR ''_'' \<notin> set p' \<and> item_key p w = item_key p' w'
      \<longrightarrow> p = p' \<and> w = w') \<and>
   (CHR ''_'' \<notin> set p \<longrightarrow>
      (case split_first (item_key p w) of
         None \<Rightarrow> False
       | Some (p0, w0) \<Rightarrow> find_inventory_item repo p0 w0 = find_inventory_item repo p w)) \<and>
   split_first (item_key ''a_b'' ''c'') = Some (''a'', ''b_c'') \<and>
   item_key ''a_b'' ''c'' = item_key ''a'' ''b_c''"
proof -
  have "split_first (item_key ''a_b'' ''c'') = Some (''a'', ''b_c'')"
    by (simp add: item_key_def)
  moreover have "item_key ''a_b'' ''c'' = item_key ''a'' ''b_c''"
    by (simp add: item_key_def)
  ultimately show ?thesis
    using item_key_inj [of p p' w w'] by (simp add: split_first_item_key)
qed

theorem item_key_round_trip_witness:
  "split_first (item_key ''P'' ''W_1'') = Some (''P'', ''W_1'') \<and>
   find_inventory_item sample_repo ''P'' ''W1'' = Some sample_item"
  using item_key_round_trip [of "''P''" "''W_1''" "''P''" "''W_1''" sample_repo]
    item_key_round_trip [of "''P''" "''W1''" "''P''" "''W1''" sample_repo]
  by (simp add: find_inventory_item_def sample_repo_def item_key_def)

section \<open>The allocation planner\<close>

lemma update_fresh:
  "k \<notin> fst ` set al \<Longrightarrow> AList.update k v al = al @ [(k, v)]"
  by (induction al) auto

lemma sum_list_insort_key:
  "sum_list (map f (insort_key g x xs)) = f x + sum_list (map f xs)"
  for f :: "'a \<Rightarrow> int"
  by (induction xs) auto

lemma sum_list_sort_key:
  "sum_list (map f (sort_key g xs)) = sum_list (map f xs)"
  for f :: "'a \<Rightarrow> int"
  by (induction xs) (auto simp: sum_list_insort_key)

lemma allocate_remaining:
  "fst (allocate p xs needed plan) = needed - sum_list (map snd (greedy_allocation p xs needed))"
  by (induction p xs needed plan rule: allocate.induct) (auto simp: Let_def)

lemma greedy_allocation_sum:
  assumes "\<forall>x \<in> set xs. 0 \<le> available_quantity x" and "0 < needed"
  shows "sum_list (map snd (greedy_allocation p xs needed))
           = min needed (sum_list (map available_quantity xs))"
  using assms
proof (induction xs arbitrary: needed)
  case Nil
  then show ?case by simp
next
  case (Cons x xs)
  have nn: "0 \<le> sum_list (map available_quantity xs)"
    using Cons.prems(1) by (intro sum_list_nonneg) auto
  show ?case
  proof (cases "needed \<le> available_quantity x")
    case True
    with Cons.prems nn show ?thesis by (cases xs) (auto simp: min_def)
  next
    case False
    with Cons.prems nn Cons.IH [of "needed - available_quantity x"] Cons.IH [of needed]
    show ?thesis by (auto simp: min_def)
  qed
qed

lemma greedy_allocation_entries:
  "(k, q) \<in> set (greedy_allocation p xs needed) \<Longrightarrow>
     0 < q \<and> (\<exists>x \<in> set xs. k = (p, warehouse_id x) \<and> q \<le> available_quantity x)"
  by (induction p xs needed rule: greedy_allocation.induct) (auto split: if_splits)

lemma allocate_plan_fresh:
  assumes "distinct (map warehouse_id xs)"
    and "\<forall>x \<in> set xs. (p, warehouse_id x) \<notin> fst ` set plan"
  shows "snd (allocate p xs needed plan) = plan @ greedy_allocation p xs needed"
  using assms
proof (induction p xs needed plan rule: allocate.induct)
  case (1 p remaining_needed plan)
  then show ?case by simp
next
  case (2 p x rest needed plan)
  show ?case
  proof (cases "needed \<le> 0")
    case True
    then show ?thesis by simp
  next
    case pos: False
    show ?thesis
    proof (cases "0 < min needed (available_quantity x)")
      case True
      let ?c = "min needed (available_quantity x)"
      have fresh: "(p, warehouse_id x) \<notin> fst ` set plan" using "2.prems"(2) by simp
      have "\<forall>y \<in> set rest. (p, warehouse_id y) \<notin> fst ` set (AList.update (p, warehouse_id x) ?c plan)"
      proof
        fix y assume y: "y \<in> set rest"
        then have "warehouse_id y \<in> warehouse_id ` set rest" by (rule imageI)
        then have "warehouse_id y \<noteq> warehouse_id x" using "2.prems"(1) by (metis distinct.simps(2) list.simps(9) set_map)
        moreover have "(p, warehouse_id y) \<notin> fst ` set plan" using y "2.prems"(2) by simp
        ultimately show "(p, warehouse_id y) \<notin> fst ` set (AList.update (p, warehouse_id x) ?c plan)"
          by (simp add: dom_update)
      qed
      moreover have "distinct (map warehouse_id rest)" using "2.prems"(1) by simp
      ultimately have "snd (allocate p rest (needed - ?c) (AList.update (p, warehouse_id x) ?c plan))
          = AList.update (p, warehouse_id x) ?c plan @ greedy_allocation p rest (needed - ?c)"
        using "2.IH"(1) [OF pos refl True] by blast
      with pos True fresh show ?thesis by (simp add: update_fresh Let_def)
    next
      case False
      have "snd (allocate p rest needed plan) = plan @ greedy_allocation p rest needed"
        using "2.IH"(2) [OF pos refl False] "2.prems" by simp
      with pos False show ?thesis by (simp add: Let_def)
    qed
  qed
qed

lemma set_update_subset:
  "set (AList.update k v al) \<subseteq> insert (k, v) (set al)"
  by (induction al) auto

lemma allocate_plan_subset:
  "set (snd (allocate p xs needed plan)) \<subseteq> set plan \<union> set (greedy_allocation p xs needed)"
proof (induction p xs needed plan rule: allocate.induct)
  case (1 p remaining_needed plan)
  then show ?case by simp
next
  case (2 p x rest needed plan)
  show ?case
  proof (cases "needed \<le> 0")
    case True
    then show ?thesis by simp
  next
    case pos: False
    show ?thesis
    proof (cases "0 < min needed (available_quantity x)")
      case True
      let ?c = "min needed (available_quantity x)"
      have "set (snd (allocate p rest (needed - ?c) (AList.update (p, warehouse_id x) ?c plan)))
          \<subseteq> set (AList.update (p, warehouse_id x) ?c plan)
              \<union> set (greedy_allocation p rest (needed - ?c))"
        using "2.IH"(1) [OF pos refl True] .
      also have "\<dots> \<subseteq> insert ((p, warehouse_id x), ?c) (set plan)
              \<union> set (greedy_allocation p rest (needed - ?c))"
        using set_update_subset [of "(p, warehouse_id x)" ?c plan] by blast
      finally show ?thesis using pos True by (auto simp: Let_def)
    next
      case False
      with pos "2.IH"(2) [OF pos refl False] show ?thesis by (simp add: Let_def)
    qed
  qed
qed

lemma allocate_plan_distinct:
  "distinct (map fst plan) \<Longrightarrow> distinct (map fst (snd (allocate p xs needed plan)))"
  by (induction p xs needed plan rule: allocate.induct) (auto simp: Let_def distinct_update)

lemma distinct_map_Cons_neq:
  "distinct (map f (x # xs)) \<Longrightarrow> y \<in> set xs \<Longrightarrow> f y \<noteq> f x"
  by (metis distinct.simps(2) image_eqI list.simps(9) set_map)

lemma item_key_same_product:
  "item_key p w = item_key p w' \<longleftrightarrow> w = w'"
  by (simp add: item_key_def)

lemma inventory_wf_entry:
  assumes "inventory_wf repo" and "(k, x) \<in> set (inventory_items repo)"
  shows "k = item_key (product_id x) (warehouse_id x)" "0 \<le> available_quantity x"
    "0 \<le> reserved_quantity x" "map_of (inventory_items repo) k = Some x"
  using assms
  by (auto simp: inventory_wf_def list_all_iff item_wf_def quantities_valid_def)

lemma find_inventory_by_product_entry:
  assumes "inventory_wf repo" and "x \<in> set (find_inventory_by_product repo p)"
  shows "product_id x = p" "0 \<le> available_quantity x" "0 \<le> reserved_quantity x"
    "find_inventory_item repo p (warehouse_id x) = Some x"
proof -
  from assms(2) obtain k where k: "(k, x) \<in> set (inventory_items repo)" and p: "product_id x = p"
    by (auto simp: find_inventory_by_product_def)
  show "product_id x = p" by (rule p)
  from inventory_wf_entry [OF assms(1) k] p
  show "0 \<le> available_quantity x" "0 \<le> reserved_quantity x"
    "find_inventory_item repo p (warehouse_id x) = Some x"
    by (simp_all add: find_inventory_item_def)
qed

lemma find_inventory_by_product_distinct:
  assumes "inventory_wf repo"
  shows "distinct (map warehouse_id (find_inventory_by_product repo p))"
proof -
  let ?key = "\<lambda>x. item_key (product_id x) (warehouse_id x)"
  have eq: "map fst (inventory_items repo) = map ?key (map snd (inventory_items repo))"
    using assms by (auto simp: inventory_wf_def list_all_iff item_wf_def)
  have "distinct (map fst (inventory_items repo))"
    using assms by (simp add: inventory_wf_def)
  then have "distinct (map ?key (map snd (inventory_items repo)))"
    by (simp only: eq)
  then have "distinct (map ?key (find_inventory_by_product repo p))"
    unfolding find_inventory_by_product_def by (rule distinct_map_filter)
  moreover have "map ?key (find_inventory_by_product repo p)
      = map (item_key p) (map warehouse_id (find_inventory_by_product repo p))"
    by (simp add: find_inventory_by_product_def)
  ultimately have "distinct (map (item_key p) (map warehouse_id (find_inventory_by_product repo p)))"
    by simp
  then show ?thesis by (metis distinct_map)
qed

lemma sorted_entries_distinct:
  assumes "inventory_wf repo"
  shows "distinct (map warehouse_id (sort_by_available_desc (find_inventory_by_product repo p)))"
proof -
  have "distinct (map warehouse_id (find_inventory_by_product repo p))"
    using assms by (rule find_inventory_by_product_distinct)
  then show ?thesis
    by (simp add: distinct_map sort_by_available_desc_def)
qed

lemma total_available_nonneg:
  assumes "inventory_wf repo"
  shows "0 \<le> total_available repo p"
  unfolding total_available_def
  using find_inventory_by_product_entry(2) [OF assms] by (intro sum_list_nonneg) auto

lemma line_remaining:
  assumes "inventory_wf repo"
  shows "0 < fst (allocate (cart_product_id c)
              (sort_by_available_desc (find_inventory_by_product repo (cart_product_id c)))
              (quantity c) plan)
         \<longleftrightarrow> total_available repo (cart_product_id c) < quantity c"
proof (cases "0 < quantity c")
  case True
  let ?xs = "sort_by_available_desc (find_inventory_by_product repo (cart_product_id c))"
  have "\<forall>x \<in> set ?xs. 0 \<le> available_quantity x"
    using find_inventory_by_product_entry(2) [OF assms] by (simp add: sort_by_available_desc_def)
  then have "sum_list (map snd (greedy_allocation (cart_product_id c) ?xs (quantity c)))
      = min (quantity c) (sum_list (map available_quantity ?xs))"
    using True by (rule greedy_allocation_sum)
  moreover have "sum_list (map available_quantity ?xs) = total_available repo (cart_product_id c)"
    by (simp add: sort_by_available_desc_def total_available_def sum_list_sort_key)
  ultimately show ?thesis by (simp add: allocate_remaining min_def)
next
  case False
  then have "greedy_allocation (cart_product_id c)
      (sort_by_available_desc (find_inventory_by_product repo (cart_product_id c))) (quantity c) = []"
    by (cases "sort_by_available_desc (find_inventory_by_product repo (cart_product_id c))") simp_all
  with False total_available_nonneg [OF assms, of "cart_product_id c"] show ?thesis
    by (simp add: allocate_remaining)
qed

lemma plan_lines_None_iff:
  assumes "inventory_wf repo"
  shows "plan_lines repo cart plan = None
     \<longleftrightarrow> (\<exists>c \<in> set cart. total_available repo (cart_product_id c) < quantity c)"
proof (induction cart arbitrary: plan)
  case Nil
  then show ?case by simp
next
  case (Cons c cart)
  show ?case
    using line_remaining [OF assms, of c plan] Cons.IH
    by (auto split: prod.splits)
qed

lemma line_allocation_sum:
  assumes "inventory_wf repo" and "0 < quantity c"
    and "quantity c \<le> total_available repo (cart_product_id c)"
  shows "sum_list (map snd (line_allocation repo c)) = quantity c"
proof -
  let ?xs = "sort_by_available_desc (find_inventory_by_product repo (cart_product_id c))"
  have "\<forall>x \<in> set ?xs. 0 \<le> available_quantity x"
    using find_inventory_by_product_entry(2) [OF assms(1)] by (simp add: sort_by_available_desc_def)
  then have "sum_list (map snd (greedy_allocation (cart_product_id c) ?xs (quantity c)))
      = min (quantity c) (sum_list (map available_quantity ?xs))"
    using assms(2) by (rule greedy_allocation_sum)
  moreover have "sum_list (map available_quantity ?xs) = total_available repo (cart_product_id c)"
    by (simp add: sort_by_available_desc_def total_available_def sum_list_sort_key)
  ultimately show ?thesis using assms(3) by (simp add: line_allocation_def)
qed

lemma line_allocation_entries:
  assumes "inventory_wf repo" and "((p, w), q) \<in> set (line_allocation repo c)"
  shows "p = cart_product_id c" "0 < q"
    "\<exists>x. find_inventory_item repo p w = Some x \<and> product_id x = p \<and> warehouse_id x = w
        \<and> q \<le> available_quantity x"
proof -
  from greedy_allocation_entries [OF assms(2) [unfolded line_allocation_def]]
  obtain x where q: "0 < q" and x: "x \<in> set (find_inventory_by_product repo (cart_product_id c))"
    and k: "(p, w) = (cart_product_id c, warehouse_id x)" and le: "q \<le> available_quantity x"
    by (auto simp: sort_by_available_desc_def)
  show "p = cart_product_id c" "0 < q" using k q by simp_all
  from find_inventory_by_product_entry [OF assms(1) x] k le
  show "\<exists>x. find_inventory_item repo p w = Some x \<and> product_id x = p \<and> warehouse_id x = w
        \<and> q \<le> available_quantity x" by auto
qed

lemma plan_lines_distinct_products:
  assumes "inventory_wf repo" and "distinct (map cart_product_id cart)"
    and "\<forall>c \<in> set cart. \<forall>k \<in> fst ` set plan. fst k \<noteq> cart_product_id c"
    and "plan_lines repo cart plan = Some pl"
  shows "pl = plan @ concat (map (line_allocation repo) cart)"
  using assms(2-)
proof (induction cart arbitrary: plan)
  case Nil
  then show ?case by simp
next
  case (Cons c cart)
  let ?p = "cart_product_id c"
  let ?xs = "sort_by_available_desc (find_inventory_by_product repo ?p)"
  have "\<forall>x \<in> set ?xs. (?p, warehouse_id x) \<notin> fst ` set plan"
    using Cons.prems(2) by force
  with sorted_entries_distinct [OF assms(1), of ?p]
  have snd: "snd (allocate ?p ?xs (quantity c) plan) = plan @ line_allocation repo c"
    unfolding line_allocation_def by (rule allocate_plan_fresh)
  from Cons.prems(3) have rest: "plan_lines repo cart (plan @ line_allocation repo c) = Some pl"
    using snd by (auto split: prod.splits if_splits)
  have "\<forall>c' \<in> set cart. \<forall>k \<in> fst ` set (plan @ line_allocation repo c). fst k \<noteq> cart_product_id c'"
  proof (intro ballI)
    fix c' k assume c': "c' \<in> set cart" and k: "k \<in> fst ` set (plan @ line_allocation repo c)"
    from Cons.prems(1) c' have ne: "cart_product_id c' \<noteq> ?p" by (rule distinct_map_Cons_neq)
    from k consider "k \<in> fst ` set plan" | "k \<in> fst ` set (line_allocation repo c)" by auto
    then show "fst k \<noteq> cart_product_id c'"
    proof cases
      case 1
      with Cons.prems(2) c' show ?thesis by auto
    next
      case 2
      then obtain q where "(k, q) \<in> set (line_allocation repo c)" by auto
      then have "fst k = ?p" using line_allocation_entries(1) [OF assms(1), of "fst k" "snd k" q c] by simp
      with ne show ?thesis by simp
    qed
  qed
  from Cons.IH [OF _ this rest] Cons.prems(1) show ?case by simp
qed

lemma plan_lines_sound:
  assumes "inventory_wf repo" and "plan_lines repo cart plan = Some pl"
  shows "set pl \<subseteq> set plan \<union> (\<Union>c \<in> set cart. set (line_allocation repo c))"
  using assms(2)
proof (induction cart arbitrary: plan)
  case Nil
  then show ?case by simp
next
  case (Cons c cart)
  let ?p = "cart_product_id c"
  let ?xs = "sort_by_available_desc (find_inventory_by_product repo ?p)"
  let ?plan' = "snd (allocate ?p ?xs (quantity c) plan)"
  from Cons.prems have rest: "plan_lines repo cart ?plan' = Some pl"
    by (auto split: prod.splits if_splits)
  have "set ?plan' \<subseteq> set plan \<union> set (line_allocation repo c)"
    unfolding line_allocation_def by (rule allocate_plan_subset)
  with Cons.IH [OF rest] show ?case by auto
qed

lemma plan_lines_distinct:
  assumes "distinct (map fst plan)" and "plan_lines repo cart plan = Some pl"
  shows "distinct (map fst pl)"
  using assms
proof (induction cart arbitrary: plan)
  case Nil
  then show ?case by simp
next
  case (Cons c cart)
  let ?p = "cart_product_id c"
  let ?xs = "sort_by_available_desc (find_inventory_by_product repo ?p)"
  let ?plan' = "snd (allocate ?p ?xs (quantity c) plan)"
  from Cons.prems have rest: "plan_lines repo cart ?plan' = Some pl"
    by (auto split: prod.splits if_splits)
  have "distinct (map fst ?plan')" using Cons.prems(1) by (rule allocate_plan_distinct)
  from Cons.IH [OF this rest] show ?case .
qed

lemma line_allocation_product:
  "e \<in> set (line_allocation repo c) \<Longrightarrow> fst (fst e) = cart_product_id c"
  using greedy_allocation_entries [of "fst e" "snd e"] by (fastforce simp: line_allocation_def)

lemma allocated_Nil: "allocated [] p = 0"
  by (simp add: allocated_def)

lemma allocated_append:
  "allocated (xs @ ys) p = allocated xs p + allocated ys p"
  by (simp add: allocated_def)

lemma allocated_line:
  "allocated (line_allocation repo c) p
     = (if cart_product_id c = p then sum_list (map snd (line_allocation repo c)) else 0)"
proof -
  have "filter (\<lambda>e. fst (fst e) = p) (line_allocation repo c)
      = (if cart_product_id c = p then line_allocation repo c else [])"
    using line_allocation_product [of _ repo c] by (auto simp: filter_empty_conv filter_id_conv)
  then show ?thesis by (simp add: allocated_def)
qed

lemma allocated_lines:
  assumes "distinct (map cart_product_id cart)" and "c \<in> set cart"
  shows "allocated (concat (map (line_allocation repo) cart)) (cart_product_id c)
           = sum_list (map snd (line_allocation repo c))"
  using assms
proof (induction cart)
  case Nil
  then show ?case by simp
next
  case (Cons a cart)
  have absent: "allocated (concat (map (line_allocation repo) cart)) p = 0"
    if "p \<notin> cart_product_id ` set cart" for p
    using that by (induction cart) (auto simp: allocated_append allocated_line allocated_Nil)
  show ?case
  proof (cases "c = a")
    case True
    with Cons.prems(1) absent [of "cart_product_id a"] show ?thesis
      by (simp add: allocated_append allocated_line)
  next
    case False
    with Cons.prems have c: "c \<in> set cart" by simp
    with Cons.prems(1) have "cart_product_id c \<noteq> cart_product_id a"
      by (rule distinct_map_Cons_neq)
    with Cons.IH c Cons.prems(1) show ?thesis
      by (simp add: allocated_append allocated_line)
  qed
qed

lemma sort_by_available_desc_sorted:
  "sorted (rev (map available_quantity (sort_by_available_desc xs)))"
proof -
  have "sorted (map (\<lambda>x. - available_quantity x) (sort_by_available_desc xs))"
    by (simp add: sort_by_available_desc_def)
  then have "sorted_wrt (\<lambda>a b. available_quantity b \<le> available_quantity a) (sort_by_available_desc xs)"
    by (simp add: sorted_wrt_map)
  then have "sorted_wrt (\<lambda>a b. b \<le> a) (map available_quantity (sort_by_available_desc xs))"
    by (simp add: sorted_wrt_map)
  then show ?thesis by (simp add: sorted_wrt_rev)
qed

lemma sort_by_available_desc_stable:
  "filter (\<lambda>x. available_quantity x = a) (sort_by_available_desc xs)
     = filter (\<lambda>x. available_quantity x = a) xs"
  using sort_key_stable [of "\<lambda>x. - available_quantity x" "- a" xs]
  by (simp add: sort_by_available_desc_def)

lemma sample_repo_wf: "inventory_wf sample_repo"
  by (simp add: inventory_wf_def item_wf_def quantities_valid_def sample_repo_def sample_item_def
      item_key_def)

lemma sample_plan:
  "plan_inventory_allocation sample_repo [CartItem ''P'' 3] = Some [((''P'', ''W1''), 3)]"
  by (simp add: sample_repo_def sample_item_def plan_inventory_allocation_def
      find_inventory_by_product_def sort_by_available_desc_def)

text \<open>
  Claim C2, amended. On a well-formed repository the planner signals infeasibility
  exactly when some line asks for more than the available quantities of its product
  sum to. When it returns a plan for a cart whose lines have pairwise distinct products
  and positive quantities, the plan is the concatenation, line after line, of the
  greedy allocation of section 4.2 over the product's entries sorted by descending
  available quantity, and what the plan allocates to the product of each line sums to
  the quantity the line requests. The sort puts the entries in descending order of
  available quantity and keeps entries of equal quantity in repository order. The
  planner is a function of the repository that returns a plan only: it changes nothing.
\<close>

theorem planner_correct:
  assumes "inventory_wf repo"
  shows
    "(plan_inventory_allocation repo cart = None
        \<longleftrightarrow> (\<exists>c \<in> set cart. total_available repo (cart_product_id c) < quantity c)) \<and>
     (\<forall>plan. plan_inventory_allocation repo cart = Some plan \<and> distinct (map cart_product_id cart)
          \<and> (\<forall>c \<in> set cart. 0 < quantity c) \<longrightarrow>
        plan = concat (map (line_allocation repo) cart) \<and>
        (\<forall>c \<in> set cart. allocated plan (cart_product_id c) = quantity c)) \<and>
     (\<forall>c. sorted (rev (map available_quantity
              (sort_by_available_desc (find_inventory_by_product repo (cart_product_id c))))) \<and>
          (\<forall>a. filter (\<lambda>x. available_quantity x = a)
                 (sort_by_available_desc (find_inventory_by_product repo (cart_product_id c)))
               = filter (\<lambda>x. available_quantity x = a)
                   (find_inventory_by_product repo (cart_product_id c))))"
proof (intro conjI allI impI)
  show "plan_inventory_allocation repo cart = None
        \<longleftrightarrow> (\<exists>c \<in> set cart. total_available repo (cart_product_id c) < quantity c)"
    unfolding plan_inventory_allocation_def using assms by (rule plan_lines_None_iff)
next
  fix plan
  assume a: "plan_inventory_allocation repo cart = Some plan \<and> distinct (map cart_product_id cart)
          \<and> (\<forall>c \<in> set cart. 0 < quantity c)"
  then have "plan = [] @ concat (map (line_allocation repo) cart)"
    using plan_lines_distinct_products [OF assms, of cart "[]" plan]
    by (simp add: plan_inventory_allocation_def)
  then show eq: "plan = concat (map (line_allocation repo) cart)" by simp
  show "\<forall>c \<in> set cart. allocated plan (cart_product_id c) = quantity c"
  proof
    fix c assume c: "c \<in> set cart"
    from a have "plan_lines repo cart [] \<noteq> None" by (simp add: plan_inventory_allocation_def)
    with c have "quantity c \<le> total_available repo (cart_product_id c)"
      using plan_lines_None_iff [OF assms, of cart "[]"] by auto
    with a c have "sum_list (map snd (line_allocation repo c)) = quantity c"
      using line_allocation_sum [OF assms, of c] by simp
    with a c show "allocated plan (cart_product_id c) = quantity c"
      by (simp add: eq allocated_lines)
  qed
qed (simp_all add: sort_by_available_desc_sorted sort_by_available_desc_stable)

theorem planner_correct_witness:
  "inventory_wf sample_repo \<and>
   plan_inventory_allocation sample_repo [CartItem ''P'' 3] = Some [((''P'', ''W1''), 3)] \<and>
   [((''P'', ''W1''), 3)] = concat (map (line_allocation sample_repo) [CartItem ''P'' 3]) \<and>
   allocated [((''P'', ''W1''), 3)] ''P'' = 3 \<and>
   plan_inventory_allocation sample_repo [CartItem ''P'' 6] = None"
proof -
  note t = planner_correct [OF sample_repo_wf, of "[CartItem ''P'' 3]"]
  from t have imp:
    "plan_inventory_allocation sample_repo [CartItem ''P'' 3] = Some [((''P'', ''W1''), 3)]
        \<and> distinct (map cart_product_id [CartItem ''P'' 3])
        \<and> (\<forall>c \<in> set [CartItem ''P'' 3]. 0 < quantity c) \<longrightarrow>
     [((''P'', ''W1''), 3)] = concat (map (line_allocation sample_repo) [CartItem ''P'' 3]) \<and>
     (\<forall>c \<in> set [CartItem ''P'' 3]. allocated [((''P'', ''W1''), 3)] (cart_product_id c) = quantity c)"
    by blast
  have pre:
    "plan_inventory_allocation sample_repo [CartItem ''P'' 3] = Some [((''P'', ''W1''), 3)]
        \<and> distinct (map cart_product_id [CartItem ''P'' 3])
        \<and> (\<forall>c \<in> set [CartItem ''P'' 3]. 0 < quantity c)"
    using sample_plan by simp
  from imp pre have both:
    "[((''P'', ''W1''), 3)] = concat (map (line_allocation sample_repo) [CartItem ''P'' 3]) \<and>
     (\<forall>c \<in> set [CartItem ''P'' 3]. allocated [((''P'', ''W1''), 3)] (cart_product_id c) = quantity c)"
    by (rule mp)
  from both have 1: "[((''P'', ''W1''), 3)] = concat (map (line_allocation sample_repo) [CartItem ''P'' 3])"
    by (rule conjunct1)
  from both have "\<forall>c \<in> set [CartItem ''P'' 3]. allocated [((''P'', ''W1''), 3)] (cart_product_id c) = quantity c"
    by (rule conjunct2)
  then have 3: "allocated [((''P'', ''W1''), 3)] ''P'' = 3" by simp
  have "total_available sample_repo ''P'' = 5"
    by (simp add: total_available_def find_inventory_by_product_def sample_repo_def sample_item_def)
  then have 2: "plan_inventory_allocation sample_repo [CartItem ''P'' 6] = None"
    using planner_correct [OF sample_repo_wf, of "[CartItem ''P'' 6]"] by simp
  from 1 2 3 sample_repo_wf sample_plan show ?thesis by blast
qed

text \<open>
  The claim as stated, for every list of lines, fails when a product is repeated: each
  line is planned against the same quantities and overwrites the allocation of the line
  before it. With five units of \<open>P\<close> available, the lines \<open>P \<times> 3\<close> and \<open>P \<times> 2\<close> give
  a plan that allocates 2 units to \<open>P\<close>, not the 3 of the first line.
\<close>

theorem planner_repeated_product_counterexample:
  "inventory_wf sample_repo \<and>
   plan_inventory_allocation sample_repo [CartItem ''P'' 3, CartItem ''P'' 2]
     = Some [((''P'', ''W1''), 2)] \<and>
   allocated [((''P'', ''W1''), 2)] (cart_product_id (CartItem ''P'' 3)) = 2 \<and>
   quantity (CartItem ''P'' 3) = 3"
  by (simp add: inventory_wf_def item_wf_def quantities_valid_def sample_repo_def sample_item_def
      item_key_def plan_inventory_allocation_def find_inventory_by_product_def
      sort_by_available_desc_def allocated_def)

section \<open>Applying a plan and rolling it back\<close>

lemma alist_eqI:
  assumes "map fst xs = map fst ys" and "distinct (map fst xs)"
    and "\<And>k. map_of xs k = map_of ys k"
  shows "xs = ys"
  using assms
proof (induction xs arbitrary: ys)
  case Nil
  then show ?case by simp
next
  case (Cons x xs)
  from Cons.prems(1) obtain y ys' where ys: "ys = y # ys'" by (cases ys) auto
  with Cons.prems(1) have k: "fst y = fst x" and keys: "map fst xs = map fst ys'" by simp_all
  from Cons.prems(3) [of "fst x"] ys k have "snd x = snd y" by (cases x; cases y) simp
  with k have xy: "x = y" by (simp add: prod_eq_iff)
  have "map_of xs k' = map_of ys' k'" for k'
  proof (cases "k' = fst x")
    case True
    with Cons.prems(2) have "k' \<notin> fst ` set xs" by simp
    moreover from this keys have "k' \<notin> fst ` set ys'" by (metis set_map)
    ultimately have "map_of xs k' = None" "map_of ys' k' = None"
      by (simp_all add: map_of_eq_None_iff)
    then show ?thesis by simp
  next
    case False
    with Cons.prems(3) [of k'] ys xy show ?thesis by (cases y) (simp split: if_splits)
  qed
  with Cons.IH [OF keys] Cons.prems(2) have "xs = ys'" by simp
  with xy ys show ?case by simp
qed

lemma map_of_map_snd:
  "map_of (map (\<lambda>e. (fst e, f (snd e))) xs) k = map_option f (map_of xs k)"
  by (induction xs) auto

lemma ledger_lookup:
  "map_of (ledger repo) k
     = map_option (\<lambda>x. (available_quantity x, reserved_quantity x)) (map_of (inventory_items repo) k)"
  unfolding ledger_def by (rule map_of_map_snd)

lemma ledger_keys: "map fst (ledger repo) = map fst (inventory_items repo)"
  by (simp add: ledger_def)

lemma save_inventory_item_lookup:
  "map_of (inventory_items (save_inventory_item x repo)) k
     = (if k = item_key (product_id x) (warehouse_id x) then Some x
        else map_of (inventory_items repo) k)"
  by (simp add: save_inventory_item_def update_conv')

lemma save_inventory_item_reservations:
  "reservations (save_inventory_item x repo) = reservations repo"
  by (simp add: save_inventory_item_def)

lemma save_inventory_item_keys:
  assumes "map_of (inventory_items repo) (item_key (product_id x) (warehouse_id x)) = Some y"
  shows "map fst (inventory_items (save_inventory_item x repo)) = map fst (inventory_items repo)"
proof -
  from assms have "item_key (product_id x) (warehouse_id x) \<in> set (map fst (inventory_items repo))"
    by (metis map_of_eq_None_iff option.distinct(1) set_map)
  then show ?thesis by (simp add: save_inventory_item_def update_keys)
qed

lemma save_inventory_item_wf:
  assumes "inventory_wf repo" and "quantities_valid x"
  shows "inventory_wf (save_inventory_item x repo)"
proof -
  have "set (AList.update k v al) \<subseteq> insert (k, v) (set al)" for k :: string and v :: InventoryItem and al
    by (induction al) auto
  then have "set (inventory_items (save_inventory_item x repo))
      \<subseteq> insert (item_key (product_id x) (warehouse_id x), x) (set (inventory_items repo))"
    by (simp add: save_inventory_item_def)
  moreover have "distinct (map fst (inventory_items (save_inventory_item x repo)))"
    using assms(1) by (simp add: save_inventory_item_def inventory_wf_def distinct_update)
  ultimately show ?thesis
    using assms unfolding inventory_wf_def list_all_iff by (auto simp: item_wf_def)
qed

lemma inventory_wf_lookup:
  assumes "inventory_wf repo" and "map_of (inventory_items repo) k = Some x"
  shows "k = item_key (product_id x) (warehouse_id x)" "quantities_valid x"
  using assms map_of_SomeD [OF assms(2)]
  by (auto simp: inventory_wf_def list_all_iff item_wf_def)

lemma held_total_Nil: "held_total [] k = 0"
  by (simp add: held_total_def)

lemma held_total_Cons:
  "held_total (h # hs) k = (if fst h = k then snd h else 0) + held_total hs k"
  by (simp add: held_total_def)

lemma held_total_append: "held_total (xs @ ys) k = held_total xs k + held_total ys k"
  by (simp add: held_total_def)

lemma held_total_nonneg: "\<forall>h \<in> set hs. 0 < snd h \<Longrightarrow> 0 \<le> held_total hs k"
  unfolding held_total_def by (intro sum_list_nonneg) auto

lemma held_total_distinct:
  "distinct (map fst hs) \<Longrightarrow> held_total hs k = (case map_of hs k of None \<Rightarrow> 0 | Some q \<Rightarrow> q)"
proof (induction hs)
  case Nil
  then show ?case by (simp add: held_total_Nil)
next
  case (Cons h hs)
  then have IH: "held_total hs k = (case map_of hs k of None \<Rightarrow> 0 | Some q \<Rightarrow> q)" by simp
  show ?case
  proof (cases "fst h = k")
    case True
    with Cons.prems have "k \<notin> fst ` set hs" by auto
    then have "map_of hs k = None" by (simp add: map_of_eq_None_iff)
    with IH True show ?thesis by (cases h) (simp add: held_total_Cons)
  next
    case False
    with IH show ?thesis by (cases h) (simp add: held_total_Cons)
  qed
qed

lemma shift_by_0: "shift_by 0 v = v"
  by (simp add: shift_by_def)

lemma shift_by_shift_by: "shift_by m (shift_by n v) = shift_by (n + m) v"
  by (simp add: shift_by_def)

lemma map_option_shift_by_0: "map_option (shift_by 0) x = x"
  by (cases x) (simp_all add: shift_by_0)

lemma map_option_shift_by_twice:
  "map_option (shift_by m) (map_option (shift_by n) x) = map_option (shift_by (n + m)) x"
  by (cases x) (simp_all add: shift_by_shift_by)

lemma reserve_True:
  assumes "reserve now q x = (Inr True, x')"
  shows "0 < q" "q \<le> available_quantity x"
    "x' = x\<lparr>available_quantity := available_quantity x - q,
            reserved_quantity := reserved_quantity x + q, last_updated := now\<rparr>"
  using assms by (auto simp: reserve_def split: if_splits)

lemma reserve_step:
  assumes wf: "inventory_wf repo" and f: "find_inventory_item repo p w = Some x"
    and r: "reserve now q x = (Inr True, x')"
  shows "item_key (product_id x') (warehouse_id x') = item_key p w"
    and "0 < q"
    and "inventory_wf (save_inventory_item x' repo)"
    and "reservations (save_inventory_item x' repo) = reservations repo"
    and "map fst (inventory_items (save_inventory_item x' repo)) = map fst (inventory_items repo)"
    and "map_of (ledger (save_inventory_item x' repo)) k
          = map_option (shift_by (held_total [(item_key p w, q)] k)) (map_of (ledger repo) k)"
proof -
  note rt = reserve_True [OF r]
  from f have lk: "map_of (inventory_items repo) (item_key p w) = Some x"
    by (simp add: find_inventory_item_def)
  note xw = inventory_wf_lookup [OF wf lk]
  show key: "item_key (product_id x') (warehouse_id x') = item_key p w"
    using rt(3) xw(1) by simp
  show "0 < q" by (rule rt(1))
  have "quantities_valid x'" using rt xw(2) by (simp add: quantities_valid_def)
  with wf show "inventory_wf (save_inventory_item x' repo)" by (rule save_inventory_item_wf)
  show "reservations (save_inventory_item x' repo) = reservations repo"
    by (rule save_inventory_item_reservations)
  show "map fst (inventory_items (save_inventory_item x' repo)) = map fst (inventory_items repo)"
    using lk key by (intro save_inventory_item_keys [where y = x]) simp
  show "map_of (ledger (save_inventory_item x' repo)) k
          = map_option (shift_by (held_total [(item_key p w, q)] k)) (map_of (ledger repo) k)"
    using lk key rt(3)
    by (simp add: ledger_lookup save_inventory_item_lookup held_total_Cons held_total_Nil
        shift_by_def map_option_shift_by_0)
qed

lemma apply_plan_effect:
  assumes "inventory_wf repo" and "apply_plan now pl repo ri sr = (res, repo', sr')"
  shows "\<exists>done. sr' = sr @ done \<and> (\<forall>h \<in> set done. 0 < snd h) \<and> inventory_wf repo' \<and>
           reservations repo' = reservations repo \<and>
           map fst (inventory_items repo') = map fst (inventory_items repo) \<and>
           (\<forall>k. map_of (ledger repo') k
                 = map_option (shift_by (held_total done k)) (map_of (ledger repo) k)) \<and>
           (\<forall>ri'. res = Inr ri' \<longrightarrow> done = map encode_hold pl \<and>
                 ri' = fold (\<lambda>h. AList.update (fst h) (snd h)) (map encode_hold pl) ri)"
  using assms
proof (induction pl arbitrary: repo ri sr)
  case Nil
  then have "res = Inr ri" "repo' = repo" "sr' = sr" by simp_all
  with Nil.prems(1) show ?case
    by (intro exI [of _ "[]"]) (simp add: held_total_Nil map_option_shift_by_0)
next
  case (Cons e rest)
  obtain p w q where e: "e = ((p, w), q)" by (cases e) auto
  have stop: ?case if "\<forall>ri'. res \<noteq> Inr ri'" "repo' = repo" "sr' = sr"
    using that Cons.prems(1)
    by (intro exI [of _ "[]"]) (simp add: held_total_Nil map_option_shift_by_0)
  show ?case
  proof (cases "find_inventory_item repo p w")
    case None
    with Cons.prems(2) e show ?thesis by (intro stop) auto
  next
    case (Some x)
    obtain out x' where r: "reserve now q x = (out, x')" by (cases "reserve now q x")
    show ?thesis
    proof (cases out)
      case (Inl err)
      with Cons.prems(2) e Some r show ?thesis by (intro stop) auto
    next
      case (Inr b)
      show ?thesis
      proof (cases b)
        case False
        with Cons.prems(2) e Some r Inr show ?thesis by (intro stop) auto
      next
        case True
        with r Inr have r': "reserve now q x = (Inr True, x')" by simp
        let ?repo1 = "save_inventory_item x' repo"
        note st = reserve_step [OF Cons.prems(1) Some r']
        from Cons.prems(2) e Some r' st(1)
        have rec: "apply_plan now rest ?repo1 (AList.update (item_key p w) q ri)
                     (sr @ [(item_key p w, q)]) = (res, repo', sr')"
          by simp
        from Cons.IH [OF st(3) rec] obtain done' where d:
          "sr' = (sr @ [(item_key p w, q)]) @ done'"
          "\<forall>h \<in> set done'. 0 < snd h"
          "inventory_wf repo'"
          "reservations repo' = reservations ?repo1"
          "map fst (inventory_items repo') = map fst (inventory_items ?repo1)"
          "\<And>k. map_of (ledger repo') k
                 = map_option (shift_by (held_total done' k)) (map_of (ledger ?repo1) k)"
          "\<And>ri'. res = Inr ri' \<Longrightarrow> done' = map encode_hold rest \<and>
                 ri' = fold (\<lambda>h. AList.update (fst h) (snd h)) (map encode_hold rest)
                         (AList.update (item_key p w) q ri)"
          by blast
        let ?done = "(item_key p w, q) # done'"
        have "map_of (ledger repo') k
                 = map_option (shift_by (held_total ?done k)) (map_of (ledger repo) k)" for k
        proof -
          have "held_total ?done k = held_total [(item_key p w, q)] k + held_total done' k"
            by (simp add: held_total_Cons held_total_Nil)
          then show ?thesis
            by (simp add: d(6) st(6) map_option_shift_by_twice)
        qed
        moreover have "sr' = sr @ ?done" using d(1) by simp
        moreover have "\<forall>h \<in> set ?done. 0 < snd h" using d(2) st(2) by simp
        moreover have "reservations repo' = reservations repo" using d(4) st(4) by simp
        moreover have "map fst (inventory_items repo') = map fst (inventory_items repo)"
          using d(5) st(5) by simp
        moreover have "\<forall>ri'. res = Inr ri' \<longrightarrow> ?done = map encode_hold (e # rest) \<and>
                 ri' = fold (\<lambda>h. AList.update (fst h) (snd h)) (map encode_hold (e # rest)) ri"
          using d(7) e by (simp add: encode_hold_def)
        ultimately show ?thesis using d(3) by blast
      qed
    qed
  qed
qed

lemma release_positive:
  assumes "0 < q" and "q \<le> reserved_quantity x"
  shows "release_reservation now q x
    = (Inr q, x\<lparr>reserved_quantity := reserved_quantity x - q,
                 available_quantity := available_quantity x + q, last_updated := now\<rparr>)"
  using assms by (simp add: release_reservation_def Let_def)

lemma rollback_effect:
  assumes "inventory_wf repo" and "\<forall>h \<in> set done. 0 < snd h"
    and "\<And>k x. map_of (inventory_items repo) k = Some x \<Longrightarrow> held_total done k \<le> reserved_quantity x"
  shows "inventory_wf (rollback_reservations now done repo) \<and>
         reservations (rollback_reservations now done repo) = reservations repo \<and>
         map fst (inventory_items (rollback_reservations now done repo))
           = map fst (inventory_items repo) \<and>
         (\<forall>k. map_of (ledger (rollback_reservations now done repo)) k
               = map_option (shift_by (- held_total done k)) (map_of (ledger repo) k))"
  using assms
proof (induction "done" arbitrary: repo)
  case Nil
  then show ?case by (simp add: held_total_Nil map_option_shift_by_0)
next
  case (Cons h rest)
  obtain k0 q where h: "h = (k0, q)" by (cases h)
  from Cons.prems(2) h have q: "0 < q" and pos: "\<forall>h \<in> set rest. 0 < snd h" by simp_all
  have nn: "0 \<le> held_total rest k" for k using pos by (rule held_total_nonneg)
  show ?case
  proof (cases "map_of (inventory_items repo) k0")
    case None
    have "held_total rest k \<le> reserved_quantity x"
      if "map_of (inventory_items repo) k = Some x" for k x
      using Cons.prems(3) [OF that] q h by (simp add: held_total_Cons split: if_splits)
    from Cons.IH [OF Cons.prems(1) pos this]
    have IH: "inventory_wf (rollback_reservations now rest repo)"
      "reservations (rollback_reservations now rest repo) = reservations repo"
      "map fst (inventory_items (rollback_reservations now rest repo)) = map fst (inventory_items repo)"
      "\<And>k. map_of (ledger (rollback_reservations now rest repo)) k
               = map_option (shift_by (- held_total rest k)) (map_of (ledger repo) k)"
      by simp_all
    have "map_of (ledger (rollback_reservations now rest repo)) k
               = map_option (shift_by (- held_total (h # rest) k)) (map_of (ledger repo) k)" for k
    proof (cases "k = k0")
      case True
      from None have "map_of (ledger repo) k0 = None" by (simp add: ledger_lookup)
      with True show ?thesis by (simp add: IH(4))
    next
      case False
      with h show ?thesis by (simp add: IH(4) held_total_Cons)
    qed
    with IH None h show ?thesis by simp
  next
    case (Some x)
    note xw = inventory_wf_lookup [OF Cons.prems(1) Some]
    from Cons.prems(3) [OF Some] h have le: "q + held_total rest k0 \<le> reserved_quantity x"
      by (simp add: held_total_Cons)
    with nn [of k0] have qle: "q \<le> reserved_quantity x" by simp
    let ?x' = "x\<lparr>reserved_quantity := reserved_quantity x - q,
                 available_quantity := available_quantity x + q, last_updated := now\<rparr>"
    let ?repo1 = "save_inventory_item ?x' repo"
    have rel: "release_reservation now q x = (Inr q, ?x')" using q qle by (rule release_positive)
    have key: "item_key (product_id ?x') (warehouse_id ?x') = k0" using xw(1) by simp
    have step: "rollback_reservations now (h # rest) repo = rollback_reservations now rest ?repo1"
      using h Some rel by simp
    have "quantities_valid ?x'" using xw(2) q qle by (simp add: quantities_valid_def)
    with Cons.prems(1) have wf1: "inventory_wf ?repo1" by (rule save_inventory_item_wf)
    have keys1: "map fst (inventory_items ?repo1) = map fst (inventory_items repo)"
      using Some key by (intro save_inventory_item_keys [where y = x]) simp
    have l1: "map_of (ledger ?repo1) k = map_option (shift_by (- held_total [(k0, q)] k)) (map_of (ledger repo) k)" for k
      using Some key
      by (simp add: ledger_lookup save_inventory_item_lookup held_total_Cons held_total_Nil
          shift_by_def map_option_shift_by_0)
    have "held_total rest k \<le> reserved_quantity y"
      if "map_of (inventory_items ?repo1) k = Some y" for k y
    proof (cases "k = k0")
      case True
      with that key have "y = ?x'" by (simp add: save_inventory_item_lookup)
      with le True show ?thesis by simp
    next
      case False
      with that key have "map_of (inventory_items repo) k = Some y"
        by (simp add: save_inventory_item_lookup)
      from Cons.prems(3) [OF this] False h show ?thesis by (simp add: held_total_Cons)
    qed
    from Cons.IH [OF wf1 pos this]
    have IH: "inventory_wf (rollback_reservations now rest ?repo1)"
      "reservations (rollback_reservations now rest ?repo1) = reservations ?repo1"
      "map fst (inventory_items (rollback_reservations now rest ?repo1)) = map fst (inventory_items ?repo1)"
      "\<And>k. map_of (ledger (rollback_reservations now rest ?repo1)) k
               = map_option (shift_by (- held_total rest k)) (map_of (ledger ?repo1) k)"
      by simp_all
    have "map_of (ledger (rollback_reservations now rest ?repo1)) k
               = map_option (shift_by (- held_total (h # rest) k)) (map_of (ledger repo) k)" for k
    proof -
      have "- held_total (h # rest) k = - held_total [(k0, q)] k + - held_total rest k"
        using h by (simp add: held_total_Cons held_total_Nil)
      then show ?thesis by (simp add: IH(4) l1 map_option_shift_by_twice)
    qed
    with IH(1-3) keys1 show ?thesis
      by (simp add: step save_inventory_item_reservations)
  qed
qed

lemma try_block_failure:
  assumes wf: "inventory_wf repo"
    and a: "apply_plan now pl repo [] [] = (Inl e, repo', sr')"
  shows "ledger (rollback_reservations now sr' repo') = ledger repo"
    and "reservations (rollback_reservations now sr' repo') = reservations repo"
    and "inventory_wf (rollback_reservations now sr' repo')"
proof -
  from apply_plan_effect [OF wf a] have d:
    "\<forall>h \<in> set sr'. 0 < snd h" "inventory_wf repo'" "reservations repo' = reservations repo"
    "map fst (inventory_items repo') = map fst (inventory_items repo)"
    "\<And>k. map_of (ledger repo') k = map_option (shift_by (held_total sr' k)) (map_of (ledger repo) k)"
    by auto
  have bound: "held_total sr' k \<le> reserved_quantity x"
    if x: "map_of (inventory_items repo') k = Some x" for k x
  proof -
    from x have "map_of (ledger repo') k = Some (available_quantity x, reserved_quantity x)"
      by (simp add: ledger_lookup)
    with d(5) [of k] obtain v where v: "map_of (ledger repo) k = Some v"
      and xv: "(available_quantity x, reserved_quantity x) = shift_by (held_total sr' k) v"
      by (cases "map_of (ledger repo) k") simp_all
    from v obtain y where y: "map_of (inventory_items repo) k = Some y"
      and vy: "v = (available_quantity y, reserved_quantity y)"
      by (auto simp: ledger_lookup)
    from inventory_wf_lookup(2) [OF wf y] have "0 \<le> reserved_quantity y"
      by (simp add: quantities_valid_def)
    with xv vy show ?thesis by (simp add: shift_by_def)
  qed
  note rb = rollback_effect [OF d(2) d(1) bound, of now]
  from rb show "inventory_wf (rollback_reservations now sr' repo')" by simp
  from rb d(3) show "reservations (rollback_reservations now sr' repo') = reservations repo" by simp
  show "ledger (rollback_reservations now sr' repo') = ledger repo"
  proof (rule alist_eqI)
    show "map fst (ledger (rollback_reservations now sr' repo')) = map fst (ledger repo)"
      using rb d(4) by (simp add: ledger_keys)
    then show "distinct (map fst (ledger (rollback_reservations now sr' repo')))"
      using wf by (simp add: ledger_keys inventory_wf_def)
    show "map_of (ledger (rollback_reservations now sr' repo')) k = map_of (ledger repo) k" for k
      using rb d(5) [of k] by (simp add: map_option_shift_by_twice map_option_shift_by_0)
  qed
qed

lemma fold_update_fresh:
  assumes "distinct (map fst hs)" and "fst ` set ri \<inter> fst ` set hs = {}"
  shows "fold (\<lambda>h. AList.update (fst h) (snd h)) hs ri = ri @ hs"
  using assms
proof (induction hs arbitrary: ri)
  case Nil
  then show ?case by simp
next
  case (Cons h hs)
  from Cons.prems(2) have "fst h \<notin> fst ` set ri" by auto
  then have u: "AList.update (fst h) (snd h) ri = ri @ [h]" by (simp add: update_fresh)
  have "fst ` set (ri @ [h]) \<inter> fst ` set hs = {}" using Cons.prems by auto
  with Cons.IH [of "ri @ [h]"] Cons.prems(1) u show ?case by simp
qed

lemma apply_plan_succeeds:
  assumes "inventory_wf repo"
    and "\<forall>e \<in> set pl. 0 < snd e \<and> (\<exists>x. find_inventory_item repo (fst (fst e)) (snd (fst e)) = Some x
            \<and> snd e \<le> available_quantity x)"
    and "distinct (map fst (map encode_hold pl))"
  shows "\<exists>ri' repo' sr'. apply_plan now pl repo ri sr = (Inr ri', repo', sr')"
  using assms
proof (induction pl arbitrary: repo ri sr)
  case Nil
  then show ?case by simp
next
  case (Cons e rest)
  obtain p w q where e: "e = ((p, w), q)" by (cases e) auto
  from Cons.prems(2) e obtain x where q: "0 < q" and x: "find_inventory_item repo p w = Some x"
    and le: "q \<le> available_quantity x" by auto
  let ?x' = "x\<lparr>available_quantity := available_quantity x - q,
                reserved_quantity := reserved_quantity x + q, last_updated := now\<rparr>"
  have r: "reserve now q x = (Inr True, ?x')" using q le by (simp add: reserve_def)
  note st = reserve_step [OF Cons.prems(1) x r]
  let ?repo1 = "save_inventory_item ?x' repo"
  have "\<forall>e' \<in> set rest. 0 < snd e' \<and>
          (\<exists>y. find_inventory_item ?repo1 (fst (fst e')) (snd (fst e')) = Some y
              \<and> snd e' \<le> available_quantity y)"
  proof
    fix e' assume e': "e' \<in> set rest"
    from Cons.prems(3) have "distinct (map (\<lambda>e. fst (encode_hold e)) (e # rest))"
      by (simp add: comp_def)
    from distinct_map_Cons_neq [OF this e'] e have "fst (encode_hold e') \<noteq> item_key p w"
      by (simp add: encode_hold_def)
    then have "find_inventory_item ?repo1 (fst (fst e')) (snd (fst e'))
        = find_inventory_item repo (fst (fst e')) (snd (fst e'))"
      using st(1) by (simp add: find_inventory_item_def save_inventory_item_lookup encode_hold_def)
    with Cons.prems(2) e' show "0 < snd e' \<and>
          (\<exists>y. find_inventory_item ?repo1 (fst (fst e')) (snd (fst e')) = Some y
              \<and> snd e' \<le> available_quantity y)" by simp
  qed
  moreover have "distinct (map fst (map encode_hold rest))" using Cons.prems(3) by simp
  ultimately obtain ri' repo' sr' where
    "apply_plan now rest ?repo1 (AList.update (item_key p w) q ri)
       (sr @ [(item_key (product_id ?x') (warehouse_id ?x'), q)]) = (Inr ri', repo', sr')"
    using Cons.IH [OF st(3)] by blast
  with e x r show ?case by simp
qed

lemma planned_entries:
  assumes wf: "inventory_wf repo" and pl: "plan_inventory_allocation repo cart = Some plan"
  shows "\<forall>e \<in> set plan. 0 < snd e \<and>
           (\<exists>x. find_inventory_item repo (fst (fst e)) (snd (fst e)) = Some x
              \<and> product_id x = fst (fst e) \<and> warehouse_id x = snd (fst e)
              \<and> snd e \<le> available_quantity x)"
proof
  fix e assume "e \<in> set plan"
  with plan_lines_sound [OF wf pl [unfolded plan_inventory_allocation_def]]
  obtain c where "e \<in> set (line_allocation repo c)" by auto
  then have "((fst (fst e), snd (fst e)), snd e) \<in> set (line_allocation repo c)" by simp
  from line_allocation_entries(2,3) [OF wf this]
  show "0 < snd e \<and>
           (\<exists>x. find_inventory_item repo (fst (fst e)) (snd (fst e)) = Some x
              \<and> product_id x = fst (fst e) \<and> warehouse_id x = snd (fst e)
              \<and> snd e \<le> available_quantity x)" by simp
qed

lemma planned_holds_distinct:
  assumes wf: "inventory_wf repo" and pl: "plan_inventory_allocation repo cart = Some plan"
  shows "distinct (map fst (map encode_hold plan))"
proof -
  let ?f = "\<lambda>k. item_key (fst k) (snd k)"
  have d: "distinct (map fst plan)"
    using plan_lines_distinct [of "[]" repo cart plan] pl
    by (simp add: plan_inventory_allocation_def)
  have inj: "inj_on ?f (set (map fst plan))"
  proof (rule inj_onI)
    fix a b assume a: "a \<in> set (map fst plan)" and b: "b \<in> set (map fst plan)" and eq: "?f a = ?f b"
    from a obtain qa where "(a, qa) \<in> set plan" by auto
    with planned_entries [OF wf pl] obtain x where
      x: "find_inventory_item repo (fst a) (snd a) = Some x" "product_id x = fst a" "warehouse_id x = snd a"
      by fastforce
    from b obtain qb where "(b, qb) \<in> set plan" by auto
    with planned_entries [OF wf pl] obtain y where
      y: "find_inventory_item repo (fst b) (snd b) = Some y" "product_id y = fst b" "warehouse_id y = snd b"
      by fastforce
    from x(1) y(1) eq have "x = y" by (simp add: find_inventory_item_def)
    with x y show "a = b" by (simp add: prod_eq_iff)
  qed
  have "distinct (map ?f (map fst plan))"
    by (rule iffD2 [OF distinct_map]) (use d inj in blast)
  moreover have "map fst (map encode_hold plan) = map ?f (map fst plan)"
    by (simp add: encode_hold_def)
  ultimately show ?thesis by (simp only:)
qed

lemma save_reservation_ledger: "ledger (save_reservation r repo) = ledger repo"
  by (simp add: save_reservation_def ledger_def)

lemma save_reservation_inventory:
  "inventory_items (save_reservation r repo) = inventory_items repo"
  by (simp add: save_reservation_def)

lemma save_reservation_find:
  "find_reservation (save_reservation r repo) rid
     = (if rid = reservation_id r then Some r else find_reservation repo rid)"
  by (simp add: save_reservation_def find_reservation_def update_conv')

lemma create_fields:
  "reservation_id (create now rid customer held m) = rid"
  "status (create now rid customer held m) = ACTIVE"
  "items (create now rid customer held m) = held"
  "customer_id (create now rid customer held m) = customer"
  "expires_at (create now rid customer held m) = now + timedelta_minutes m"
  by (simp_all add: create_def)

lemma reserve_planned_outcome:
  assumes wf: "inventory_wf repo"
    and r: "reserve_planned now rid plan customer repo = (out, repo')"
  shows "(out = Inl (ReservationException Reservation_failed) \<and> ledger repo' = ledger repo
            \<and> reservations repo' = reservations repo)
       \<or> (out = Inr rid \<and>
            find_reservation repo' rid
              = Some (create now rid customer
                        (fold (\<lambda>h. AList.update (fst h) (snd h)) (map encode_hold plan) [])
                        default_reservation_expiry_minutes) \<and>
            (\<forall>rid'. rid' \<noteq> rid \<longrightarrow> find_reservation repo' rid' = find_reservation repo rid') \<and>
            map fst (ledger repo') = map fst (ledger repo) \<and>
            (\<forall>k. map_of (ledger repo') k
                  = map_option (shift_by (held_total (map encode_hold plan) k))
                      (map_of (ledger repo) k)))"
proof -
  obtain res repo1 sr1 where a: "apply_plan now plan repo [] [] = (res, repo1, sr1)"
    by (cases "apply_plan now plan repo [] []") auto
  show ?thesis
  proof (cases res)
    case (Inl e)
    with a r have "out = Inl (ReservationException Reservation_failed)"
      "repo' = rollback_reservations now sr1 repo1"
      by (simp_all add: reserve_planned_def)
    with try_block_failure(1,2) [OF wf a [unfolded Inl]] show ?thesis by simp
  next
    case (Inr ri')
    from apply_plan_effect [OF wf a] Inr have d:
      "sr1 = map encode_hold plan"
      "ri' = fold (\<lambda>h. AList.update (fst h) (snd h)) (map encode_hold plan) []"
      "reservations repo1 = reservations repo"
      "map fst (inventory_items repo1) = map fst (inventory_items repo)"
      "\<And>k. map_of (ledger repo1) k
            = map_option (shift_by (held_total sr1 k)) (map_of (ledger repo) k)"
      by auto
    from a r Inr have out: "out = Inr rid"
      and repo': "repo' = save_reservation
             (create now rid customer ri' default_reservation_expiry_minutes) repo1"
      by (simp_all add: reserve_planned_def)
    have same: "find_reservation repo1 rid' = find_reservation repo rid'" for rid'
      using d(3) by (simp add: find_reservation_def)
    have "find_reservation repo' rid' = find_reservation repo rid'" if "rid' \<noteq> rid" for rid'
      using that by (simp add: repo' save_reservation_find create_fields same)
    moreover have "find_reservation repo' rid
        = Some (create now rid customer ri' default_reservation_expiry_minutes)"
      by (simp add: repo' save_reservation_find create_fields)
    moreover have "map fst (ledger repo') = map fst (ledger repo)"
      using d(4) by (simp add: repo' save_reservation_ledger ledger_keys)
    moreover have "map_of (ledger repo') k
        = map_option (shift_by (held_total (map encode_hold plan) k)) (map_of (ledger repo) k)" for k
      using d(5) [of k] d(1) by (simp add: repo' save_reservation_ledger)
    ultimately show ?thesis using out d(2) by simp
  qed
qed

lemma shift_by_held:
  "map_option (shift_by (case m of None \<Rightarrow> 0 | Some q \<Rightarrow> q)) v
     = (case m of None \<Rightarrow> v | Some q \<Rightarrow> map_option (shift_by q) v)"
  by (cases m) (simp_all add: map_option_shift_by_0)

lemma reserve_items_outcome:
  assumes wf: "inventory_wf repo"
    and r: "reserve_items now rid cart customer repo = (out, repo')"
  shows "(out = Inl InsufficientInventoryException \<and> repo' = repo \<and>
           (plan_inventory_allocation repo cart = None
              \<or> plan_inventory_allocation repo cart = Some []))
       \<or> (\<exists>plan. plan_inventory_allocation repo cart = Some plan \<and> plan \<noteq> [] \<and> out = Inr rid \<and>
            find_reservation repo' rid
              = Some (create now rid customer (map encode_hold plan)
                        default_reservation_expiry_minutes) \<and>
            (\<forall>rid'. rid' \<noteq> rid \<longrightarrow> find_reservation repo' rid' = find_reservation repo rid') \<and>
            distinct (map fst (map encode_hold plan)) \<and>
            (\<forall>h \<in> set (map encode_hold plan). 0 < snd h \<and> fst h \<in> fst ` set (ledger repo)) \<and>
            map fst (ledger repo') = map fst (ledger repo) \<and>
            (\<forall>k. map_of (ledger repo') k
                  = (case map_of (map encode_hold plan) k of
                       None \<Rightarrow> map_of (ledger repo) k
                     | Some q \<Rightarrow> map_option (shift_by q) (map_of (ledger repo) k))))"
proof (cases "plan_inventory_allocation repo cart")
  case None
  with r show ?thesis by (simp add: reserve_items_def)
next
  case (Some plan)
  show ?thesis
  proof (cases "plan = []")
    case True
    with Some r show ?thesis by (simp add: reserve_items_def)
  next
    case False
    with Some r have rp: "reserve_planned now rid plan customer repo = (out, repo')"
      by (simp add: reserve_items_def)
    note ent = planned_entries [OF wf Some]
    note dist = planned_holds_distinct [OF wf Some]
    from ent have ent': "\<forall>e \<in> set plan. 0 < snd e \<and>
        (\<exists>x. find_inventory_item repo (fst (fst e)) (snd (fst e)) = Some x
            \<and> snd e \<le> available_quantity x)" by blast
    from apply_plan_succeeds [OF wf ent' dist, of now "[]" "[]"]
    have "out \<noteq> Inl (ReservationException Reservation_failed)"
      using rp by (auto simp: reserve_planned_def)
    with reserve_planned_outcome [OF wf rp] have s:
      "out = Inr rid"
      "find_reservation repo' rid
         = Some (create now rid customer
                   (fold (\<lambda>h. AList.update (fst h) (snd h)) (map encode_hold plan) [])
                   default_reservation_expiry_minutes)"
      "\<forall>rid'. rid' \<noteq> rid \<longrightarrow> find_reservation repo' rid' = find_reservation repo rid'"
      "map fst (ledger repo') = map fst (ledger repo)"
      "\<And>k. map_of (ledger repo') k
            = map_option (shift_by (held_total (map encode_hold plan) k)) (map_of (ledger repo) k)"
      by auto
    have f: "fold (\<lambda>h. AList.update (fst h) (snd h)) (map encode_hold plan) [] = map encode_hold plan"
      using fold_update_fresh [OF dist, of "[]"] by simp
    have keys: "\<forall>h \<in> set (map encode_hold plan). 0 < snd h \<and> fst h \<in> fst ` set (ledger repo)"
    proof
      fix h assume "h \<in> set (map encode_hold plan)"
      then obtain e where e: "e \<in> set plan" and h: "h = encode_hold e" by auto
      with ent obtain x where q: "0 < snd e"
        and x: "find_inventory_item repo (fst (fst e)) (snd (fst e)) = Some x" by blast
      from x have "map_of (ledger repo) (fst h) \<noteq> None"
        by (simp add: h encode_hold_def ledger_lookup find_inventory_item_def)
      then have "fst h \<in> fst ` set (ledger repo)" by (simp add: map_of_eq_None_iff)
      with q h show "0 < snd h \<and> fst h \<in> fst ` set (ledger repo)" by (simp add: encode_hold_def)
    qed
    have "map_of (ledger repo') k
            = (case map_of (map encode_hold plan) k of
                 None \<Rightarrow> map_of (ledger repo) k
               | Some q \<Rightarrow> map_option (shift_by q) (map_of (ledger repo) k))" for k
      by (simp only: s(5) held_total_distinct [OF dist] shift_by_held)
    with Some False s(1,3,4) s(2) [unfolded f] dist keys show ?thesis by blast
  qed
qed

lemmas sample_eval =
  sample_repo_def sample_item_def reserve_items_def reserve_planned_def
  plan_inventory_allocation_def find_inventory_by_product_def sort_by_available_desc_def
  find_inventory_item_def item_key_def reserve_def release_reservation_def
  save_inventory_item_def save_reservation_def create_def ledger_def
  default_reservation_expiry_minutes_def timedelta_minutes_def find_reservation_def
  encode_hold_def Let_def

text \<open>
  Claim C1. On a well-formed repository \<^verbatim>\<open>reserve_items\<close> has two outcomes when it runs
  alone. Either it raises \<^verbatim>\<open>InsufficientInventoryException\<close> and the repository is what
  it was, which happens when the planner returned no plan or the empty plan (an empty
  \<^verbatim>\<open>dict\<close> is false). Or it returns the identifier of a reservation that is now stored
  under that identifier: its status is \<^verbatim>\<open>ACTIVE\<close>, its items are exactly the entries of
  the plan, each under the key of its ledger entry, it belongs to the customer, was
  created at the clock reading and expires fifteen minutes later, and it is neither
  confirmed nor cancelled. Every hold is positive and has a ledger entry, the entries
  named by the plan have the planned quantity moved from available to reserved, all
  others are unchanged, and no other reservation is touched.

  The second part is about the \<^verbatim>\<open>try\<close> block run with any plan, as when the ledger has
  changed since planning: if a \<^verbatim>\<open>reserve()\<close> fails, \<^verbatim>\<open>ReservationException\<close> is raised
  and, after the rollback, every ledger entry has the available and reserved quantity it
  had before the call, and no reservation is stored.
\<close>

theorem reserve_items_all_or_nothing:
  assumes "inventory_wf repo"
  shows
    "(\<forall>out repo'. reserve_items now rid cart customer repo = (out, repo') \<longrightarrow>
        (out = Inl InsufficientInventoryException \<and> repo' = repo \<and>
           (plan_inventory_allocation repo cart = None
              \<or> plan_inventory_allocation repo cart = Some []))
      \<or> (\<exists>plan. plan_inventory_allocation repo cart = Some plan \<and> plan \<noteq> [] \<and> out = Inr rid \<and>
            find_reservation repo' rid
              = Some \<lparr>reservation_id = rid, customer_id = customer, items = map encode_hold plan,
                        status = ACTIVE, created_at = now, expires_at = now + 15 * 60000000,
                        confirmed_at = None, cancelled_at = None\<rparr> \<and>
            (\<forall>rid'. rid' \<noteq> rid \<longrightarrow> find_reservation repo' rid' = find_reservation repo rid') \<and>
            distinct (map fst (map encode_hold plan)) \<and>
            (\<forall>h \<in> set (map encode_hold plan). 0 < snd h \<and> fst h \<in> fst ` set (ledger repo)) \<and>
            map fst (ledger repo') = map fst (ledger repo) \<and>
            (\<forall>k. map_of (ledger repo') k
                  = (case map_of (map encode_hold plan) k of
                       None \<Rightarrow> map_of (ledger repo) k
                     | Some q \<Rightarrow> map_option (shift_by q) (map_of (ledger repo) k))))) \<and>
     (\<forall>plan out repo'. reserve_planned now rid plan customer repo = (out, repo') \<longrightarrow>
        (out = Inl (ReservationException Reservation_failed) \<and> ledger repo' = ledger repo
            \<and> reservations repo' = reservations repo)
      \<or> (out = Inr rid \<and>
            find_reservation repo' rid
              = Some \<lparr>reservation_id = rid, customer_id = customer, items = fold (\<lambda>h. AList.update (fst h) (snd h)) (map encode_hold plan) [],
                        status = ACTIVE, created_at = now, expires_at = now + 15 * 60000000,
                        confirmed_at = None, cancelled_at = None\<rparr> \<and>
            (\<forall>rid'. rid' \<noteq> rid \<longrightarrow> find_reservation repo' rid' = find_reservation repo rid') \<and>
            map fst (ledger repo') = map fst (ledger repo) \<and>
            (\<forall>k. map_of (ledger repo') k
                  = map_option (shift_by (held_total (map encode_hold plan) k))
                      (map_of (ledger repo) k))))"
proof -
  note a = reserve_items_outcome [OF assms,
      unfolded create_def default_reservation_expiry_minutes_def timedelta_minutes_def]
  note b = reserve_planned_outcome [OF assms,
      unfolded create_def default_reservation_expiry_minutes_def timedelta_minutes_def]
  from a b show ?thesis by blast
qed

theorem reserve_items_all_or_nothing_witness:
  "inventory_wf sample_repo \<and>
   fst (reserve_items 10 ''R1'' [CartItem ''P'' 3] ''C'' sample_repo) = Inr ''R1'' \<and>
   find_reservation (snd (reserve_items 10 ''R1'' [CartItem ''P'' 3] ''C'' sample_repo)) ''R1''
     = Some \<lparr>reservation_id = ''R1'', customer_id = ''C'', items = [(''P_W1'', 3)],
             status = ACTIVE, created_at = 10, expires_at = 900000010,
             confirmed_at = None, cancelled_at = None\<rparr> \<and>
   map_of (ledger (snd (reserve_items 10 ''R1'' [CartItem ''P'' 3] ''C'' sample_repo))) ''P_W1''
     = Some (2, 3) \<and>
   reserve_items 10 ''R1'' [CartItem ''P'' 6] ''C'' sample_repo
     = (Inl InsufficientInventoryException, sample_repo) \<and>
   fst (reserve_planned 10 ''R1'' [((''P'', ''W1''), 3), ((''P'', ''W2''), 1)] ''C'' sample_repo)
     = Inl (ReservationException Reservation_failed) \<and>
   ledger (snd (reserve_planned 10 ''R1'' [((''P'', ''W1''), 3), ((''P'', ''W2''), 1)] ''C'' sample_repo))
     = ledger sample_repo"
proof -
  let ?r = "reserve_items 10 ''R1'' [CartItem ''P'' 3] ''C'' sample_repo"
  let ?s = "reserve_planned 10 ''R1'' [((''P'', ''W1''), 3), ((''P'', ''W2''), 1)] ''C'' sample_repo"
  note t = reserve_items_all_or_nothing [OF sample_repo_wf, of 10 "''R1''" "[CartItem ''P'' 3]" "''C''"]
  have ok: "fst ?r = Inr ''R1''" by (simp add: sample_eval)
  have pair: "?r = (fst ?r, snd ?r)" by simp
  note t1 = t [THEN conjunct1, rule_format, OF pair]
  from t1 ok obtain plan where
    p: "plan_inventory_allocation sample_repo [CartItem ''P'' 3] = Some plan"
    and a': "find_reservation (snd ?r) ''R1''
          = Some \<lparr>reservation_id = ''R1'', customer_id = ''C'', items = map encode_hold plan,
                        status = ACTIVE, created_at = 10, expires_at = 10 + 15 * 60000000,
                        confirmed_at = None, cancelled_at = None\<rparr>"
    and b': "\<forall>k. map_of (ledger (snd ?r)) k
                  = (case map_of (map encode_hold plan) k of
                       None \<Rightarrow> map_of (ledger sample_repo) k
                     | Some q \<Rightarrow> map_option (shift_by q) (map_of (ledger sample_repo) k))"
    by auto
  from p sample_plan have plan: "plan = [((''P'', ''W1''), 3)]" by simp
  note a = a' [unfolded plan] and b = b' [unfolded plan]
  from a have 1: "find_reservation (snd ?r) ''R1''
     = Some \<lparr>reservation_id = ''R1'', customer_id = ''C'', items = [(''P_W1'', 3)],
             status = ACTIVE, created_at = 10, expires_at = 900000010,
             confirmed_at = None, cancelled_at = None\<rparr>"
    by (simp add: encode_hold_def item_key_def)
  from b have "map_of (ledger (snd ?r)) ''P_W1''
      = (case map_of (map encode_hold [((''P'', ''W1''), 3)]) ''P_W1'' of
           None \<Rightarrow> map_of (ledger sample_repo) ''P_W1''
         | Some q \<Rightarrow> map_option (shift_by q) (map_of (ledger sample_repo) ''P_W1''))" ..
  then have 2: "map_of (ledger (snd ?r)) ''P_W1'' = Some (2, 3)"
    by (simp add: encode_hold_def item_key_def ledger_def sample_repo_def sample_item_def
        shift_by_def)
  have 3: "reserve_items 10 ''R1'' [CartItem ''P'' 6] ''C'' sample_repo
     = (Inl InsufficientInventoryException, sample_repo)"
    by (simp add: sample_eval)
  have 4: "fst ?s = Inl (ReservationException Reservation_failed)"
    by (simp add: sample_eval)
  have pair': "?s = (fst ?s, snd ?s)" by simp
  note u = reserve_items_all_or_nothing [OF sample_repo_wf, of 10 "''R1''" "[]" "''C''",
      THEN conjunct2, rule_format, OF pair']
  from u 4 have 5: "ledger (snd ?s) = ledger sample_repo" by auto
  from sample_repo_wf ok 1 2 3 4 5 show ?thesis by blast
qed

section \<open>Confirming and cancelling a reservation\<close>

lemma item_confirm_reservation_valid:
  assumes "quantities_valid x" and "item_confirm_reservation now q x = (Inr c, x')"
  shows "quantities_valid x'" "product_id x' = product_id x" "warehouse_id x' = warehouse_id x"
  using assms
  by (auto simp: item_confirm_reservation_def quantities_valid_def Let_def split: if_splits)

lemma release_reservation_valid:
  assumes "quantities_valid x" and "release_reservation now q x = (Inr c, x')"
  shows "quantities_valid x'" "product_id x' = product_id x" "warehouse_id x' = warehouse_id x"
  using assms
  by (auto simp: release_reservation_def quantities_valid_def Let_def split: if_splits)

lemma confirm_items_effect:
  assumes "inventory_wf repo" and "distinct (map fst hs)"
    and "confirm_items now hs repo = (Inr u, repo')"
  shows "inventory_wf repo' \<and> reservations repo' = reservations repo \<and>
         map fst (inventory_items repo') = map fst (inventory_items repo) \<and>
         (\<forall>k. map_of (inventory_items repo') k
               = (case map_of hs k of
                    None \<Rightarrow> map_of (inventory_items repo) k
                  | Some q \<Rightarrow> map_option (\<lambda>x. snd (item_confirm_reservation now q x))
                               (map_of (inventory_items repo) k)))"
  using assms
proof (induction hs arbitrary: repo)
  case Nil
  then show ?case by simp
next
  case (Cons h rest)
  obtain k q where h: "h = (k, q)" by (cases h)
  from Cons.prems(2) h have fresh: "map_of rest k = None" and dist: "distinct (map fst rest)"
    by (simp_all add: map_of_eq_None_iff)
  from Cons.prems(3) h obtain p w where sp: "split_first k = Some (p, w)"
    by (cases "split_first k") auto
  then have key: "item_key p w = k" by (rule split_first_rejoin)
  show ?case
  proof (cases "map_of (inventory_items repo) k")
    case None
    with Cons.prems(3) h sp key have "confirm_items now rest repo = (Inr u, repo')"
      by (simp add: find_inventory_item_def)
    from Cons.IH [OF Cons.prems(1) dist this] None fresh h show ?thesis
      by (auto split: option.splits)
  next
    case (Some x)
    obtain out x' where c: "item_confirm_reservation now q x = (out, x')"
      by (cases "item_confirm_reservation now q x")
    with Cons.prems(3) h sp key Some obtain cq where out: "out = Inr cq"
      and rec: "confirm_items now rest (save_inventory_item x' repo) = (Inr u, repo')"
      by (cases out) (auto simp: find_inventory_item_def)
    note xw = inventory_wf_lookup [OF Cons.prems(1) Some]
    note v = item_confirm_reservation_valid [OF xw(2) c [unfolded out]]
    have own: "item_key (product_id x') (warehouse_id x') = k" using v xw(1) by simp
    have wf1: "inventory_wf (save_inventory_item x' repo)"
      using Cons.prems(1) v(1) by (rule save_inventory_item_wf)
    have keys1: "map fst (inventory_items (save_inventory_item x' repo)) = map fst (inventory_items repo)"
      using Some own by (intro save_inventory_item_keys [where y = x]) simp
    from Cons.IH [OF wf1 dist rec] have IH:
      "inventory_wf repo'"
      "reservations repo' = reservations (save_inventory_item x' repo)"
      "map fst (inventory_items repo') = map fst (inventory_items (save_inventory_item x' repo))"
      "\<And>k'. map_of (inventory_items repo') k'
               = (case map_of rest k' of
                    None \<Rightarrow> map_of (inventory_items (save_inventory_item x' repo)) k'
                  | Some q \<Rightarrow> map_option (\<lambda>x. snd (item_confirm_reservation now q x))
                               (map_of (inventory_items (save_inventory_item x' repo)) k'))"
      by simp_all
    have "map_of (inventory_items repo') k'
               = (case map_of (h # rest) k' of
                    None \<Rightarrow> map_of (inventory_items repo) k'
                  | Some q \<Rightarrow> map_option (\<lambda>x. snd (item_confirm_reservation now q x))
                               (map_of (inventory_items repo) k'))" for k'
    proof (cases "k' = k")
      case True
      with IH(4) [of k] fresh own Some c h show ?thesis
        by (simp add: save_inventory_item_lookup)
    next
      case False
      with IH(4) [of k'] own h show ?thesis
        by (simp add: save_inventory_item_lookup cong: option.case_cong)
    qed
    with IH(1-3) keys1 show ?thesis by (simp add: save_inventory_item_reservations)
  qed
qed

lemma release_items_preserves:
  assumes "inventory_wf repo" and "release_items now hs repo = (out, repo')"
  shows "inventory_wf repo' \<and> reservations repo' = reservations repo \<and>
         map fst (inventory_items repo') = map fst (inventory_items repo)"
  using assms
proof (induction hs arbitrary: repo)
  case Nil
  then show ?case by simp
next
  case (Cons h rest)
  obtain k q where h: "h = (k, q)" by (cases h)
  show ?case
  proof (cases "split_first k")
    case None
    with Cons.prems h show ?thesis by simp
  next
    case (Some pw)
    obtain p w where pw: "pw = (p, w)" by (cases pw)
    with Some have key: "item_key p w = k" by (simp add: split_first_rejoin)
    show ?thesis
    proof (cases "map_of (inventory_items repo) k")
      case None
      with Cons.prems(2) h Some pw key have "release_items now rest repo = (out, repo')"
        by (simp add: find_inventory_item_def)
      from Cons.IH [OF Cons.prems(1) this] show ?thesis .
    next
      case (Some x)
      obtain res x' where c: "release_reservation now q x = (res, x')"
        by (cases "release_reservation now q x")
      show ?thesis
      proof (cases res)
        case (Inl e)
        with Cons.prems h \<open>split_first k = Some pw\<close> pw key Some c show ?thesis
          by (simp add: find_inventory_item_def)
      next
        case (Inr cq)
        with Cons.prems(2) h \<open>split_first k = Some pw\<close> pw key Some c
        have rec: "release_items now rest (save_inventory_item x' repo) = (out, repo')"
          by (simp add: find_inventory_item_def)
        note xw = inventory_wf_lookup [OF Cons.prems(1) Some]
        note v = release_reservation_valid [OF xw(2) c [unfolded Inr]]
        have own: "item_key (product_id x') (warehouse_id x') = k" using v xw(1) by simp
        have wf1: "inventory_wf (save_inventory_item x' repo)"
          using Cons.prems(1) v(1) by (rule save_inventory_item_wf)
        have keys1: "map fst (inventory_items (save_inventory_item x' repo)) = map fst (inventory_items repo)"
          using Some own by (intro save_inventory_item_keys [where y = x]) simp
        from Cons.IH [OF wf1 rec] keys1 show ?thesis
          by (simp add: save_inventory_item_reservations)
      qed
    qed
  qed
qed

lemma release_items_succeeds:
  assumes "\<forall>h \<in> set hs. 0 < snd h \<and> CHR ''_'' \<in> set (fst h)"
  shows "\<exists>repo'. release_items now hs repo = (Inr (), repo')"
  using assms
proof (induction hs arbitrary: repo)
  case Nil
  then show ?case by simp
next
  case (Cons h rest)
  obtain k q where h: "h = (k, q)" by (cases h)
  with Cons.prems have q: "0 < q" and "CHR ''_'' \<in> set k" by simp_all
  then obtain p w where sp: "split_first k = Some (p, w)"
    using split_first_underscore by blast
  from Cons.prems have rest: "\<forall>h \<in> set rest. 0 < snd h \<and> CHR ''_'' \<in> set (fst h)" by simp
  show ?case
  proof (cases "find_inventory_item repo p w")
    case None
    with h sp Cons.IH [OF rest, of repo] show ?thesis by simp
  next
    case (Some x)
    from q obtain c x' where "release_reservation now q x = (Inr c, x')"
      by (simp add: release_reservation_def Let_def)
    with h sp Some Cons.IH [OF rest, of "save_inventory_item x' repo"] show ?thesis by simp
  qed
qed

lemma release_items_effect:
  assumes "inventory_wf repo" and "distinct (map fst hs)"
    and "release_items now hs repo = (Inr u, repo')"
  shows "\<forall>k. map_of (inventory_items repo') k
               = (case map_of hs k of
                    None \<Rightarrow> map_of (inventory_items repo) k
                  | Some q \<Rightarrow> map_option (\<lambda>x. snd (release_reservation now q x))
                               (map_of (inventory_items repo) k))"
  using assms
proof (induction hs arbitrary: repo)
  case Nil
  then show ?case by simp
next
  case (Cons h rest)
  obtain k q where h: "h = (k, q)" by (cases h)
  from Cons.prems(2) h have fresh: "map_of rest k = None" and dist: "distinct (map fst rest)"
    by (simp_all add: map_of_eq_None_iff)
  from Cons.prems(3) h obtain p w where sp: "split_first k = Some (p, w)"
    by (cases "split_first k") auto
  then have key: "item_key p w = k" by (rule split_first_rejoin)
  show ?case
  proof (cases "map_of (inventory_items repo) k")
    case None
    with Cons.prems(3) h sp key have "release_items now rest repo = (Inr u, repo')"
      by (simp add: find_inventory_item_def)
    from Cons.IH [OF Cons.prems(1) dist this] None fresh h show ?thesis
      by (auto split: option.splits)
  next
    case (Some x)
    obtain out x' where c: "release_reservation now q x = (out, x')"
      by (cases "release_reservation now q x")
    with Cons.prems(3) h sp key Some obtain cq where out: "out = Inr cq"
      and rec: "release_items now rest (save_inventory_item x' repo) = (Inr u, repo')"
      by (cases out) (auto simp: find_inventory_item_def)
    note xw = inventory_wf_lookup [OF Cons.prems(1) Some]
    note v = release_reservation_valid [OF xw(2) c [unfolded out]]
    have own: "item_key (product_id x') (warehouse_id x') = k" using v xw(1) by simp
    have wf1: "inventory_wf (save_inventory_item x' repo)"
      using Cons.prems(1) v(1) by (rule save_inventory_item_wf)
    note IH = Cons.IH [OF wf1 dist rec, rule_format]
    show ?thesis
    proof
      fix k'
      show "map_of (inventory_items repo') k'
               = (case map_of (h # rest) k' of
                    None \<Rightarrow> map_of (inventory_items repo) k'
                  | Some q \<Rightarrow> map_option (\<lambda>x. snd (release_reservation now q x))
                               (map_of (inventory_items repo) k'))"
      proof (cases "k' = k")
        case True
        with IH [of k] fresh own Some c h show ?thesis
          by (simp add: save_inventory_item_lookup)
      next
        case False
        with IH [of k'] own h show ?thesis
          by (simp add: save_inventory_item_lookup cong: option.case_cong)
      qed
    qed
  qed
qed

lemma repository_wf_reservation:
  assumes "repository_wf repo" and "find_reservation repo rid = Some r"
  shows "reservation_id r = rid" "distinct (map fst (items r))"
proof -
  from assms(2) have "(rid, r) \<in> set (reservations repo)"
    by (auto simp: find_reservation_def dest: map_of_SomeD)
  with assms(1) show "reservation_id r = rid" "distinct (map fst (items r))"
    by (auto simp: repository_wf_def list_all_iff reservation_wf_def)
qed

lemma repository_wf_inventory: "repository_wf repo \<Longrightarrow> inventory_wf repo"
  by (simp add: repository_wf_def)

lemma is_active_iff: "is_active now r \<longleftrightarrow> status r = ACTIVE \<and> now \<le> expires_at r"
  by (auto simp: is_active_def is_expired_def)

lemma confirm_reservation_not_found:
  "find_reservation repo rid = None \<Longrightarrow>
     confirm_reservation now rid repo = (Inl (ReservationException Not_found), repo)"
  by (simp add: confirm_reservation_def)

lemma confirm_reservation_not_active:
  "find_reservation repo rid = Some r \<Longrightarrow> \<not> is_active now r \<Longrightarrow>
     confirm_reservation now rid repo = (Inl (ReservationException Not_active), repo)"
  by (simp add: confirm_reservation_def)

lemma confirm_reservation_success:
  assumes wf: "repository_wf repo" and c: "confirm_reservation now rid repo = (Inr b, repo')"
  shows "b \<and> (\<exists>r. find_reservation repo rid = Some r \<and> status r = ACTIVE \<and> now \<le> expires_at r \<and>
           find_reservation repo' rid = Some (r\<lparr>status := CONFIRMED, confirmed_at := Some now\<rparr>) \<and>
           (\<forall>rid'. rid' \<noteq> rid \<longrightarrow> find_reservation repo' rid' = find_reservation repo rid') \<and>
           (\<forall>k. map_of (inventory_items repo') k
                 = (case map_of (items r) k of
                      None \<Rightarrow> map_of (inventory_items repo) k
                    | Some q \<Rightarrow> map_option (\<lambda>x. snd (item_confirm_reservation now q x))
                                 (map_of (inventory_items repo) k))))"
proof -
  from c obtain r where r: "find_reservation repo rid = Some r"
    by (cases "find_reservation repo rid") (auto simp: confirm_reservation_def)
  from c r have act: "is_active now r"
    by (auto simp: confirm_reservation_def split: if_splits)
  obtain out repo1 where ci: "confirm_items now (items r) repo = (out, repo1)"
    by (cases "confirm_items now (items r) repo")
  from c r act ci obtain u where out: "out = Inr u"
    by (cases out) (auto simp: confirm_reservation_def)
  from act have cf: "confirm now r = (Inr (), r\<lparr>status := CONFIRMED, confirmed_at := Some now\<rparr>)"
    by (simp add: confirm_def)
  from c r act ci out cf have b: "b"
    and repo': "repo' = save_reservation (r\<lparr>status := CONFIRMED, confirmed_at := Some now\<rparr>) repo1"
    by (simp_all add: confirm_reservation_def)
  note rw = repository_wf_reservation [OF wf r]
  note eff = confirm_items_effect [OF repository_wf_inventory [OF wf] rw(2) ci [unfolded out]]
  have same: "find_reservation repo1 rid' = find_reservation repo rid'" for rid'
    using eff by (simp add: find_reservation_def)
  have "find_reservation repo' rid = Some (r\<lparr>status := CONFIRMED, confirmed_at := Some now\<rparr>)"
    using rw(1) by (simp add: repo' save_reservation_find)
  moreover have "find_reservation repo' rid' = find_reservation repo rid'" if "rid' \<noteq> rid" for rid'
    using that rw(1) by (simp add: repo' save_reservation_find same)
  moreover have "map_of (inventory_items repo') k
                 = (case map_of (items r) k of
                      None \<Rightarrow> map_of (inventory_items repo) k
                    | Some q \<Rightarrow> map_option (\<lambda>x. snd (item_confirm_reservation now q x))
                                 (map_of (inventory_items repo) k))" for k
    using eff by (simp add: repo' save_reservation_inventory)
  ultimately show ?thesis using b r act by (auto simp: is_active_iff)
qed

lemma sample_reserved_eq:
  "sample_reserved =
     \<lparr>inventory_items =
        [(''P_W1'', sample_item\<lparr>available_quantity := 2, reserved_quantity := 3, last_updated := 10\<rparr>)],
      reservations = [(''R1'', create 10 ''R1'' ''C'' [(''P_W1'', 3)] 15)]\<rparr>"
  by (simp add: sample_reserved_def sample_eval)

lemma sample_reserved_wf: "repository_wf sample_reserved"
  by (simp add: sample_reserved_eq repository_wf_def inventory_wf_def item_wf_def
      quantities_valid_def reservation_wf_def sample_item_def item_key_def create_def)

lemmas confirm_eval =
  sample_reserved_eq confirm_reservation_def find_reservation_def create_def is_active_def
  is_expired_def timedelta_minutes_def find_inventory_item_def item_key_def
  item_confirm_reservation_def save_inventory_item_def save_reservation_def confirm_def
  sample_item_def Let_def

text \<open>
  Claim C5. \<^verbatim>\<open>confirm_reservation\<close> raises \<^verbatim>\<open>ReservationException\<close> "not found" (the
  specification's NotFound) when no reservation has the identifier, and
  \<^verbatim>\<open>ReservationException\<close> "is not active" (the specification's InvalidState) when the
  stored status is not \<^verbatim>\<open>ACTIVE\<close> or the clock is past \<^verbatim>\<open>expires_at\<close>, whatever the stored
  status says; in both cases nothing changes. When it returns, it returns \<^verbatim>\<open>True\<close>: the
  reservation was \<^verbatim>\<open>ACTIVE\<close> and not expired, it is now stored as \<^verbatim>\<open>CONFIRMED\<close> with
  \<^verbatim>\<open>confirmed_at\<close> set to the clock reading, the entry of every hold has had
  \<^verbatim>\<open>confirm_reservation\<close> applied with the held quantity, no other entry and no other
  reservation has changed, and confirming the same identifier again, at any time, raises
  "is not active".
\<close>

theorem confirm_reservation_contract:
  assumes "repository_wf repo"
  shows
    "(find_reservation repo rid = None \<longrightarrow>
        confirm_reservation now rid repo = (Inl (ReservationException Not_found), repo)) \<and>
     (\<forall>r. find_reservation repo rid = Some r \<and> (status r \<noteq> ACTIVE \<or> expires_at r < now) \<longrightarrow>
        \<not> is_active now r \<and>
        confirm_reservation now rid repo = (Inl (ReservationException Not_active), repo)) \<and>
     (\<forall>b repo'. confirm_reservation now rid repo = (Inr b, repo') \<longrightarrow>
        b \<and>
        (\<exists>r. find_reservation repo rid = Some r \<and> status r = ACTIVE \<and> now \<le> expires_at r \<and>
           find_reservation repo' rid = Some (r\<lparr>status := CONFIRMED, confirmed_at := Some now\<rparr>) \<and>
           (\<forall>rid'. rid' \<noteq> rid \<longrightarrow> find_reservation repo' rid' = find_reservation repo rid') \<and>
           (\<forall>k. map_of (inventory_items repo') k
                 = (case map_of (items r) k of
                      None \<Rightarrow> map_of (inventory_items repo) k
                    | Some q \<Rightarrow> map_option (\<lambda>x. snd (item_confirm_reservation now q x))
                                 (map_of (inventory_items repo) k)))) \<and>
        (\<forall>now'. confirm_reservation now' rid repo'
                  = (Inl (ReservationException Not_active), repo')))"
proof (intro conjI allI impI)
  show "confirm_reservation now rid repo = (Inl (ReservationException Not_found), repo)"
    if "find_reservation repo rid = None"
    using that by (rule confirm_reservation_not_found)
next
  fix r assume a: "find_reservation repo rid = Some r \<and> (status r \<noteq> ACTIVE \<or> expires_at r < now)"
  then show na: "\<not> is_active now r" by (auto simp: is_active_iff)
  from a na show "confirm_reservation now rid repo = (Inl (ReservationException Not_active), repo)"
    by (simp add: confirm_reservation_not_active)
next
  fix b repo' assume c: "confirm_reservation now rid repo = (Inr b, repo')"
  note s = confirm_reservation_success [OF assms c]
  from s show "b" by simp
  from s show "\<exists>r. find_reservation repo rid = Some r \<and> status r = ACTIVE \<and> now \<le> expires_at r \<and>
           find_reservation repo' rid = Some (r\<lparr>status := CONFIRMED, confirmed_at := Some now\<rparr>) \<and>
           (\<forall>rid'. rid' \<noteq> rid \<longrightarrow> find_reservation repo' rid' = find_reservation repo rid') \<and>
           (\<forall>k. map_of (inventory_items repo') k
                 = (case map_of (items r) k of
                      None \<Rightarrow> map_of (inventory_items repo) k
                    | Some q \<Rightarrow> map_option (\<lambda>x. snd (item_confirm_reservation now q x))
                                 (map_of (inventory_items repo) k)))" by simp
  fix now'
  from s obtain r where "find_reservation repo' rid = Some (r\<lparr>status := CONFIRMED, confirmed_at := Some now\<rparr>)"
    by blast
  moreover have "\<not> is_active now' (r\<lparr>status := CONFIRMED, confirmed_at := Some now\<rparr>)"
    by (simp add: is_active_iff)
  ultimately show "confirm_reservation now' rid repo' = (Inl (ReservationException Not_active), repo')"
    by (rule confirm_reservation_not_active)
qed

theorem confirm_reservation_contract_witness:
  "repository_wf sample_reserved \<and>
   confirm_reservation 20 ''R2'' sample_reserved
     = (Inl (ReservationException Not_found), sample_reserved) \<and>
   confirm_reservation 900000011 ''R1'' sample_reserved
     = (Inl (ReservationException Not_active), sample_reserved) \<and>
   fst (confirm_reservation 20 ''R1'' sample_reserved) = Inr True \<and>
   map_option (\<lambda>x. (available_quantity x, reserved_quantity x, total_sold x))
     (map_of (inventory_items (snd (confirm_reservation 20 ''R1'' sample_reserved))) ''P_W1'')
     = Some (2, 0, 3) \<and>
   map_option status (find_reservation (snd (confirm_reservation 20 ''R1'' sample_reserved)) ''R1'')
     = Some CONFIRMED \<and>
   confirm_reservation 30 ''R1'' (snd (confirm_reservation 20 ''R1'' sample_reserved))
     = (Inl (ReservationException Not_active), snd (confirm_reservation 20 ''R1'' sample_reserved))"
proof -
  let ?c = "confirm_reservation 20 ''R1'' sample_reserved"
  note t = confirm_reservation_contract [OF sample_reserved_wf]
  have nf: "find_reservation sample_reserved ''R2'' = None"
    by (simp add: sample_reserved_eq find_reservation_def)
  with t [of "''R2''" 20] have 1: "confirm_reservation 20 ''R2'' sample_reserved
     = (Inl (ReservationException Not_found), sample_reserved)" by blast
  have "find_reservation sample_reserved ''R1'' = Some (create 10 ''R1'' ''C'' [(''P_W1'', 3)] 15)
      \<and> (status (create 10 ''R1'' ''C'' [(''P_W1'', 3)] 15) \<noteq> ACTIVE
          \<or> expires_at (create 10 ''R1'' ''C'' [(''P_W1'', 3)] 15) < 900000011)"
    by (simp add: sample_reserved_eq find_reservation_def create_def timedelta_minutes_def)
  with t [of "''R1''" 900000011] have 2: "confirm_reservation 900000011 ''R1'' sample_reserved
     = (Inl (ReservationException Not_active), sample_reserved)" by blast
  have 3: "fst ?c = Inr True" by (simp add: confirm_eval)
  then have c: "?c = (Inr True, snd ?c)" by (simp add: prod_eq_iff)
  have 4: "map_option (\<lambda>x. (available_quantity x, reserved_quantity x, total_sold x))
     (map_of (inventory_items (snd ?c)) ''P_W1'') = Some (2, 0, 3)"
    by (simp add: confirm_eval)
  have 5: "map_option status (find_reservation (snd ?c) ''R1'') = Some CONFIRMED"
    by (simp add: confirm_eval)
  from t [of "''R1''" 20] c have 6: "confirm_reservation 30 ''R1'' (snd ?c)
     = (Inl (ReservationException Not_active), snd ?c)" by blast
  from sample_reserved_wf 1 2 3 4 5 6 show ?thesis by blast
qed

lemma save_reservation_wf:
  assumes "repository_wf repo" and "distinct (map fst (items r))"
  shows "repository_wf (save_reservation r repo)"
proof -
  have "set (AList.update k v al) \<subseteq> insert (k, v) (set al)"
    for k :: string and v :: InventoryReservation and al
    by (induction al) auto
  then have "set (reservations (save_reservation r repo))
      \<subseteq> insert (reservation_id r, r) (set (reservations repo))"
    by (simp add: save_reservation_def)
  moreover have "distinct (map fst (reservations (save_reservation r repo)))"
    using assms(1) by (simp add: save_reservation_def repository_wf_def distinct_update)
  moreover have "inventory_wf (save_reservation r repo)"
    using assms(1) by (simp add: repository_wf_def inventory_wf_def save_reservation_inventory)
  ultimately show ?thesis
    using assms unfolding repository_wf_def list_all_iff by (auto simp: reservation_wf_def)
qed

lemma repository_wf_inventory_change:
  assumes "repository_wf repo" and "inventory_wf repo'" and "reservations repo' = reservations repo"
  shows "repository_wf repo'"
  using assms by (simp add: repository_wf_def)

lemma save_reservation_keys:
  assumes "find_reservation repo (reservation_id r) = Some r0"
  shows "map fst (reservations (save_reservation r repo)) = map fst (reservations repo)"
proof -
  from assms have "reservation_id r \<in> set (map fst (reservations repo))"
    unfolding find_reservation_def by (metis map_of_eq_None_iff option.distinct(1) set_map)
  then show ?thesis by (simp add: save_reservation_def update_keys)
qed

lemma cancel_reservation_unknown:
  "find_reservation repo rid = None \<Longrightarrow> cancel_reservation now rid repo = (False, repo)"
  by (simp add: cancel_reservation_def)

lemma cancel_reservation_done:
  "find_reservation repo rid = Some r \<Longrightarrow> status r = CONFIRMED \<or> status r = CANCELLED \<Longrightarrow>
     cancel_reservation now rid repo = (True, repo)"
  by (auto simp: cancel_reservation_def)

lemma cancel_ok:
  "status r \<noteq> CONFIRMED \<Longrightarrow> status r \<noteq> CANCELLED \<Longrightarrow>
     cancel now r = (Inr (), r\<lparr>status := CANCELLED, cancelled_at := Some now\<rparr>)"
  by (simp add: cancel_def)

lemma cancel_reservation_release:
  assumes wf: "repository_wf repo" and r: "find_reservation repo rid = Some r"
    and st: "status r \<noteq> CONFIRMED" "status r \<noteq> CANCELLED" and ok: "holds_ok r"
  shows "\<exists>repo'. cancel_reservation now rid repo = (True, repo') \<and> repository_wf repo' \<and>
           find_reservation repo' rid = Some (r\<lparr>status := CANCELLED, cancelled_at := Some now\<rparr>) \<and>
           (\<forall>rid'. rid' \<noteq> rid \<longrightarrow> find_reservation repo' rid' = find_reservation repo rid') \<and>
           map fst (reservations repo') = map fst (reservations repo) \<and>
           map fst (inventory_items repo') = map fst (inventory_items repo) \<and>
           (\<forall>k. map_of (inventory_items repo') k
                 = (case map_of (items r) k of
                      None \<Rightarrow> map_of (inventory_items repo) k
                    | Some q \<Rightarrow> map_option (\<lambda>x. snd (release_reservation now q x))
                                 (map_of (inventory_items repo) k)))"
proof -
  from ok have "\<forall>h \<in> set (items r). 0 < snd h \<and> CHR ''_'' \<in> set (fst h)"
    by (simp add: holds_ok_def list_all_iff)
  then obtain repo1 where rel: "release_items now (items r) repo = (Inr (), repo1)"
    using release_items_succeeds by blast
  note rw = repository_wf_reservation [OF wf r]
  note iw = repository_wf_inventory [OF wf]
  note pre = release_items_preserves [OF iw rel]
  note eff = release_items_effect [OF iw rw(2) rel]
  let ?r' = "r\<lparr>status := CANCELLED, cancelled_at := Some now\<rparr>"
  let ?repo' = "save_reservation ?r' repo1"
  have c: "cancel_reservation now rid repo = (True, ?repo')"
    using r st rel by (simp add: cancel_reservation_def cancel_ok)
  have wf1: "repository_wf repo1" using wf pre by (simp add: repository_wf_inventory_change)
  have same: "find_reservation repo1 rid' = find_reservation repo rid'" for rid'
    using pre by (simp add: find_reservation_def)
  have "repository_wf ?repo'" using wf1 rw(2) by (intro save_reservation_wf) simp_all
  moreover have "find_reservation ?repo' rid = Some ?r'"
    using rw(1) by (simp add: save_reservation_find)
  moreover have "find_reservation ?repo' rid' = find_reservation repo rid'" if "rid' \<noteq> rid" for rid'
    using that rw(1) by (simp add: save_reservation_find same)
  moreover have "map fst (reservations ?repo') = map fst (reservations repo)"
  proof -
    have "find_reservation repo1 (reservation_id ?r') = Some r" using r rw(1) same by simp
    then have "map fst (reservations ?repo') = map fst (reservations repo1)"
      by (rule save_reservation_keys)
    with pre show ?thesis by simp
  qed
  moreover have "map fst (inventory_items ?repo') = map fst (inventory_items repo)"
    using pre by (simp add: save_reservation_inventory)
  moreover have "\<forall>k. map_of (inventory_items ?repo') k
                 = (case map_of (items r) k of
                      None \<Rightarrow> map_of (inventory_items repo) k
                    | Some q \<Rightarrow> map_option (\<lambda>x. snd (release_reservation now q x))
                                 (map_of (inventory_items repo) k))"
    using eff by (simp add: save_reservation_inventory)
  ultimately show ?thesis using c by blast
qed

lemma fold_update_distinct:
  "distinct (map fst ri) \<Longrightarrow>
     distinct (map fst (fold (\<lambda>h. AList.update (fst h) (snd h)) hs ri))"
  by (induction hs arbitrary: ri) (simp_all add: distinct_update)

lemma reserve_planned_wf:
  assumes wf: "repository_wf repo"
    and r: "reserve_planned now rid plan customer repo = (out, repo')"
  shows "repository_wf repo'"
proof -
  note iw = repository_wf_inventory [OF wf]
  obtain res repo1 sr1 where a: "apply_plan now plan repo [] [] = (res, repo1, sr1)"
    by (cases "apply_plan now plan repo [] []") auto
  show ?thesis
  proof (cases res)
    case (Inl e)
    with a r have "repo' = rollback_reservations now sr1 repo1"
      by (simp add: reserve_planned_def)
    with try_block_failure(2,3) [OF iw a [unfolded Inl]] wf show ?thesis
      by (simp add: repository_wf_inventory_change)
  next
    case (Inr ri')
    from apply_plan_effect [OF iw a] Inr have d:
      "ri' = fold (\<lambda>h. AList.update (fst h) (snd h)) (map encode_hold plan) []"
      "inventory_wf repo1" "reservations repo1 = reservations repo"
      by auto
    from a r Inr have repo': "repo' = save_reservation
             (create now rid customer ri' default_reservation_expiry_minutes) repo1"
      by (simp add: reserve_planned_def)
    have "repository_wf repo1" using wf d(2,3) by (rule repository_wf_inventory_change)
    moreover have "distinct (map fst (items (create now rid customer ri' default_reservation_expiry_minutes)))"
      unfolding d(1) create_fields by (rule fold_update_distinct) simp
    ultimately show ?thesis unfolding repo' by (rule save_reservation_wf)
  qed
qed

lemma reserve_items_wf:
  assumes "repository_wf repo" and "reserve_items now rid cart customer repo = (out, repo')"
  shows "repository_wf repo'"
proof (cases "plan_inventory_allocation repo cart")
  case None
  with assms show ?thesis by (simp add: reserve_items_def)
next
  case (Some plan)
  show ?thesis
  proof (cases "plan = []")
    case True
    with Some assms show ?thesis by (simp add: reserve_items_def)
  next
    case False
    with Some assms(2) have "reserve_planned now rid plan customer repo = (out, repo')"
      by (simp add: reserve_items_def)
    with assms(1) show ?thesis by (rule reserve_planned_wf)
  qed
qed

lemma item_key_underscore: "CHR ''_'' \<in> set (item_key p w)"
  by (simp add: item_key_def)

lemma release_undoes_shift:
  assumes "0 < q" and "0 \<le> snd v"
    and "(available_quantity x, reserved_quantity x) = shift_by q v"
  shows "(available_quantity (snd (release_reservation now q x)),
          reserved_quantity (snd (release_reservation now q x))) = v"
  using assms by (cases v) (simp add: shift_by_def release_reservation_def Let_def)

lemma reserve_then_cancel:
  assumes wf: "repository_wf repo"
    and r: "reserve_items now0 rid0 cart customer repo = (Inr rid, repo1)"
  shows "\<exists>repo2. cancel_reservation now rid repo1 = (True, repo2) \<and> ledger repo2 = ledger repo \<and>
           map_option status (find_reservation repo2 rid) = Some CANCELLED"
proof -
  note iw = repository_wf_inventory [OF wf]
  from reserve_items_outcome [OF iw r] obtain plan where
    rid: "rid = rid0"
    and res: "find_reservation repo1 rid0
              = Some (create now0 rid0 customer (map encode_hold plan)
                        default_reservation_expiry_minutes)"
    and dist: "distinct (map fst (map encode_hold plan))"
    and pos: "\<forall>h \<in> set (map encode_hold plan). 0 < snd h \<and> fst h \<in> fst ` set (ledger repo)"
    and keys: "map fst (ledger repo1) = map fst (ledger repo)"
    and led: "\<And>k. map_of (ledger repo1) k
                  = (case map_of (map encode_hold plan) k of
                       None \<Rightarrow> map_of (ledger repo) k
                     | Some q \<Rightarrow> map_option (shift_by q) (map_of (ledger repo) k))"
    by auto
  let ?res = "create now0 rid0 customer (map encode_hold plan) default_reservation_expiry_minutes"
  have wf1: "repository_wf repo1" using wf r by (rule reserve_items_wf)
  have ok: "holds_ok ?res"
    using pos by (auto simp: holds_ok_def list_all_iff create_fields encode_hold_def item_key_underscore)
  have res': "find_reservation repo1 rid = Some ?res" using res rid by simp
  have "status ?res \<noteq> CONFIRMED" "status ?res \<noteq> CANCELLED" by (simp_all add: create_fields)
  from cancel_reservation_release [OF wf1 res' this ok, of now]
  obtain repo2 where c: "cancel_reservation now rid repo1 = (True, repo2)"
    and st: "find_reservation repo2 rid = Some (?res\<lparr>status := CANCELLED, cancelled_at := Some now\<rparr>)"
    and ikeys: "map fst (inventory_items repo2) = map fst (inventory_items repo1)"
    and inv: "\<And>k. map_of (inventory_items repo2) k
                 = (case map_of (map encode_hold plan) k of
                      None \<Rightarrow> map_of (inventory_items repo1) k
                    | Some q \<Rightarrow> map_option (\<lambda>x. snd (release_reservation now q x))
                                 (map_of (inventory_items repo1) k))"
    by (auto simp: create_fields)
  have "ledger repo2 = ledger repo"
  proof (rule alist_eqI)
    show "map fst (ledger repo2) = map fst (ledger repo)"
      using ikeys keys by (simp add: ledger_keys)
    then show "distinct (map fst (ledger repo2))"
      using iw by (simp add: ledger_keys inventory_wf_def)
    show "map_of (ledger repo2) k = map_of (ledger repo) k" for k
    proof (cases "map_of (map encode_hold plan) k")
      case None
      with inv [of k] led [of k] show ?thesis by (simp add: ledger_lookup)
    next
      case (Some q)
      then have "(k, q) \<in> set (map encode_hold plan)" by (rule map_of_SomeD)
      with pos have "0 < snd (k, q)" by blast
      then have q: "0 < q" by simp
      show ?thesis
      proof (cases "map_of (inventory_items repo) k")
        case None
        then have "map_of (ledger repo) k = None" by (simp add: ledger_lookup)
        with led [of k] Some have "map_of (ledger repo1) k = None" by simp
        then have "map_of (inventory_items repo1) k = None" by (simp add: ledger_lookup)
        with inv [of k] Some \<open>map_of (ledger repo) k = None\<close> show ?thesis
          by (simp add: ledger_lookup)
      next
        case (Some x0)
        let ?v = "(available_quantity x0, reserved_quantity x0)"
        from Some have l0: "map_of (ledger repo) k = Some ?v" by (simp add: ledger_lookup)
        with led [of k] \<open>map_of (map encode_hold plan) k = Some q\<close>
        have "map_of (ledger repo1) k = Some (shift_by q ?v)" by simp
        then obtain x1 where x1: "map_of (inventory_items repo1) k = Some x1"
          and s: "(available_quantity x1, reserved_quantity x1) = shift_by q ?v"
          by (auto simp: ledger_lookup)
        from inventory_wf_lookup(2) [OF iw Some] have "0 \<le> snd ?v"
          by (simp add: quantities_valid_def)
        note undo = release_undoes_shift [OF q this s, of now]
        have "map_of (inventory_items repo2) k = Some (snd (release_reservation now q x1))"
          using inv [of k] x1 \<open>map_of (map encode_hold plan) k = Some q\<close> by simp
        then have "map_of (ledger repo2) k
            = Some (available_quantity (snd (release_reservation now q x1)),
                    reserved_quantity (snd (release_reservation now q x1)))"
          by (simp add: ledger_lookup)
        also have "\<dots> = Some ?v" by (simp only: undo)
        finally show ?thesis by (simp only: l0)
      qed
    qed
  qed
  with c st show ?thesis by simp
qed

lemmas cancel_eval =
  sample_reserved_eq cancel_reservation_def find_reservation_def create_def
  timedelta_minutes_def find_inventory_item_def item_key_def
  release_reservation_def save_inventory_item_def save_reservation_def cancel_def
  sample_item_def ledger_def Let_def

lemma sample_repo_repository_wf: "repository_wf sample_repo"
  using sample_repo_wf by (simp add: repository_wf_def sample_repo_def)

text \<open>
  Claim C6. \<^verbatim>\<open>cancel_reservation\<close> returns \<^verbatim>\<open>False\<close> and changes nothing when no
  reservation has the identifier; it returns \<^verbatim>\<open>True\<close> and changes nothing when the
  reservation is \<^verbatim>\<open>CONFIRMED\<close> or \<^verbatim>\<open>CANCELLED\<close>. Otherwise, for a reservation whose
  holds are as \<^verbatim>\<open>reserve_items\<close> writes them (positive, under keys with an underscore),
  it returns \<^verbatim>\<open>True\<close>, the reservation is stored as \<^verbatim>\<open>CANCELLED\<close> with
  \<^verbatim>\<open>cancelled_at\<close> set to the clock reading, the entry of every hold has had
  \<^verbatim>\<open>release_reservation\<close> applied with the held quantity, and no other entry and no
  other reservation has changed. Cancelling a reservation that \<^verbatim>\<open>reserve_items\<close> has
  just made puts every ledger entry's available and reserved quantity back to what it
  was before the reservation: three of five units reserved and cancelled leave five
  available and none reserved.
\<close>

theorem cancel_reservation_contract:
  assumes "repository_wf repo"
  shows
    "(find_reservation repo rid = None \<longrightarrow> cancel_reservation now rid repo = (False, repo)) \<and>
     (\<forall>r. find_reservation repo rid = Some r \<and> (status r = CONFIRMED \<or> status r = CANCELLED) \<longrightarrow>
        cancel_reservation now rid repo = (True, repo)) \<and>
     (\<forall>r. find_reservation repo rid = Some r \<and> status r \<noteq> CONFIRMED \<and> status r \<noteq> CANCELLED
          \<and> holds_ok r \<longrightarrow>
        (\<exists>repo'. cancel_reservation now rid repo = (True, repo') \<and>
           find_reservation repo' rid = Some (r\<lparr>status := CANCELLED, cancelled_at := Some now\<rparr>) \<and>
           (\<forall>rid'. rid' \<noteq> rid \<longrightarrow> find_reservation repo' rid' = find_reservation repo rid') \<and>
           (\<forall>k. map_of (inventory_items repo') k
                 = (case map_of (items r) k of
                      None \<Rightarrow> map_of (inventory_items repo) k
                    | Some q \<Rightarrow> map_option (\<lambda>x. snd (release_reservation now q x))
                                 (map_of (inventory_items repo) k))))) \<and>
     (\<forall>now0 rid0 cart customer repo1.
        reserve_items now0 rid0 cart customer repo = (Inr rid, repo1) \<longrightarrow>
        (\<exists>repo2. cancel_reservation now rid repo1 = (True, repo2) \<and> ledger repo2 = ledger repo \<and>
           map_option status (find_reservation repo2 rid) = Some CANCELLED))"
proof (intro conjI allI impI)
  show "cancel_reservation now rid repo = (False, repo)" if "find_reservation repo rid = None"
    using that by (rule cancel_reservation_unknown)
next
  fix r
  assume "find_reservation repo rid = Some r \<and> (status r = CONFIRMED \<or> status r = CANCELLED)"
  then show "cancel_reservation now rid repo = (True, repo)"
    by (simp add: cancel_reservation_done)
next
  fix r
  assume a: "find_reservation repo rid = Some r \<and> status r \<noteq> CONFIRMED \<and> status r \<noteq> CANCELLED
          \<and> holds_ok r"
  then have "find_reservation repo rid = Some r" "status r \<noteq> CONFIRMED" "status r \<noteq> CANCELLED"
    "holds_ok r" by simp_all
  from cancel_reservation_release [OF assms this, of now]
  show "\<exists>repo'. cancel_reservation now rid repo = (True, repo') \<and>
           find_reservation repo' rid = Some (r\<lparr>status := CANCELLED, cancelled_at := Some now\<rparr>) \<and>
           (\<forall>rid'. rid' \<noteq> rid \<longrightarrow> find_reservation repo' rid' = find_reservation repo rid') \<and>
           (\<forall>k. map_of (inventory_items repo') k
                 = (case map_of (items r) k of
                      None \<Rightarrow> map_of (inventory_items repo) k
                    | Some q \<Rightarrow> map_option (\<lambda>x. snd (release_reservation now q x))
                                 (map_of (inventory_items repo) k)))"
    by blast
next
  fix now0 rid0 cart customer repo1
  assume "reserve_items now0 rid0 cart customer repo = (Inr rid, repo1)"
  with assms show "\<exists>repo2. cancel_reservation now rid repo1 = (True, repo2) \<and>
      ledger repo2 = ledger repo \<and> map_option status (find_reservation repo2 rid) = Some CANCELLED"
    by (rule reserve_then_cancel)
qed

theorem cancel_reservation_contract_witness:
  "repository_wf sample_repo \<and> repository_wf sample_reserved \<and>
   reserve_items 10 ''R1'' [CartItem ''P'' 3] ''C'' sample_repo = (Inr ''R1'', sample_reserved) \<and>
   ledger sample_reserved = [(''P_W1'', 2, 3)] \<and>
   fst (cancel_reservation 20 ''R1'' sample_reserved) = True \<and>
   ledger (snd (cancel_reservation 20 ''R1'' sample_reserved)) = [(''P_W1'', 5, 0)] \<and>
   map_option status (find_reservation (snd (cancel_reservation 20 ''R1'' sample_reserved)) ''R1'')
     = Some CANCELLED \<and>
   cancel_reservation 20 ''R2'' sample_reserved = (False, sample_reserved) \<and>
   cancel_reservation 30 ''R1'' (snd (cancel_reservation 20 ''R1'' sample_reserved))
     = (True, snd (cancel_reservation 20 ''R1'' sample_reserved))"
proof -
  let ?c = "cancel_reservation 20 ''R1'' sample_reserved"
  have r: "reserve_items 10 ''R1'' [CartItem ''P'' 3] ''C'' sample_repo = (Inr ''R1'', sample_reserved)"
  proof -
    have "fst (reserve_items 10 ''R1'' [CartItem ''P'' 3] ''C'' sample_repo) = Inr ''R1''"
      by (simp add: sample_eval)
    then show ?thesis by (simp add: sample_reserved_def prod_eq_iff)
  qed
  have l: "ledger sample_reserved = [(''P_W1'', 2, 3)]"
    by (simp add: sample_reserved_eq ledger_def sample_item_def)
  note t = cancel_reservation_contract [OF sample_repo_repository_wf, of "''R1''" 20]
  note t4 = t [THEN conjunct2, THEN conjunct2, THEN conjunct2, rule_format, OF r]
  from t4 obtain repo2 where c: "?c = (True, repo2)" and l2: "ledger repo2 = ledger sample_repo"
    and s2: "map_option status (find_reservation repo2 ''R1'') = Some CANCELLED"
    by (elim exE conjE)
  from c have 1: "fst ?c = True" and repo2: "repo2 = snd ?c" by simp_all
  from l2 have 2: "ledger (snd ?c) = [(''P_W1'', 5, 0)]"
    by (simp add: repo2 ledger_def sample_repo_def sample_item_def)
  note u = cancel_reservation_contract [OF sample_reserved_wf]
  have "find_reservation sample_reserved ''R2'' = None"
    by (simp add: sample_reserved_eq find_reservation_def)
  then have 3: "cancel_reservation 20 ''R2'' sample_reserved = (False, sample_reserved)"
    by (rule u [of "''R2''" 20, THEN conjunct1, rule_format])
  have wf2: "repository_wf (snd ?c)"
    by (simp add: cancel_eval repository_wf_def inventory_wf_def item_wf_def quantities_valid_def
        reservation_wf_def)
  have "find_reservation (snd ?c) ''R1''
      = Some ((create 10 ''R1'' ''C'' [(''P_W1'', 3)] 15)\<lparr>status := CANCELLED, cancelled_at := Some 20\<rparr>)"
    by (simp add: cancel_eval)
  then have "find_reservation (snd ?c) ''R1''
      = Some ((create 10 ''R1'' ''C'' [(''P_W1'', 3)] 15)\<lparr>status := CANCELLED, cancelled_at := Some 20\<rparr>)
      \<and> (status ((create 10 ''R1'' ''C'' [(''P_W1'', 3)] 15)\<lparr>status := CANCELLED, cancelled_at := Some 20\<rparr>) = CONFIRMED
          \<or> status ((create 10 ''R1'' ''C'' [(''P_W1'', 3)] 15)\<lparr>status := CANCELLED, cancelled_at := Some 20\<rparr>) = CANCELLED)"
    by simp
  then have 4: "cancel_reservation 30 ''R1'' (snd ?c) = (True, snd ?c)"
    by (rule cancel_reservation_contract [OF wf2, of "''R1''" 30, THEN conjunct2, THEN conjunct1, rule_format])
  from sample_repo_repository_wf sample_reserved_wf r l 1 2 s2 [unfolded repo2] 3 4
  show ?thesis by blast
qed

section \<open>The expiry sweep\<close>























end
